theory Spec2Isabelle
  imports Main "HOL-Library.Sublist"
begin

section \<open>Strings\<close>

text \<open>
  A Python \<open>str\<close> is modelled by a \<open>string\<close> holding its UTF-8 encoding: an ASCII
  character is one \<open>char\<close>, any other code point is the two to four bytes of its
  encoding. The operations below act on whole code points, as Python's do.
\<close>

text \<open>The code points \<open>str.isspace\<close> accepts, which \<open>str.strip()\<close> removes, encoded.\<close>

definition whitespace :: "string list" where
  "whitespace =
     [[CHR 0x09], [CHR 0x0A], [CHR 0x0B], [CHR 0x0C], [CHR 0x0D],
      [CHR 0x1C], [CHR 0x1D], [CHR 0x1E], [CHR 0x1F], [CHR 0x20],
      [CHR 0xC2, CHR 0x85], [CHR 0xC2, CHR 0xA0],
      [CHR 0xE1, CHR 0x9A, CHR 0x80],
      [CHR 0xE2, CHR 0x80, CHR 0x80], [CHR 0xE2, CHR 0x80, CHR 0x81],
      [CHR 0xE2, CHR 0x80, CHR 0x82], [CHR 0xE2, CHR 0x80, CHR 0x83],
      [CHR 0xE2, CHR 0x80, CHR 0x84], [CHR 0xE2, CHR 0x80, CHR 0x85],
      [CHR 0xE2, CHR 0x80, CHR 0x86], [CHR 0xE2, CHR 0x80, CHR 0x87],
      [CHR 0xE2, CHR 0x80, CHR 0x88], [CHR 0xE2, CHR 0x80, CHR 0x89],
      [CHR 0xE2, CHR 0x80, CHR 0x8A], [CHR 0xE2, CHR 0x80, CHR 0xA8],
      [CHR 0xE2, CHR 0x80, CHR 0xA9], [CHR 0xE2, CHR 0x80, CHR 0xAF],
      [CHR 0xE2, CHR 0x81, CHR 0x9F], [CHR 0xE3, CHR 0x80, CHR 0x80]]"

text \<open>The number of bytes of the whitespace code point a string starts (ends) with, or 0.\<close>

definition leading_space :: "string \<Rightarrow> nat" where
  "leading_space s = (case filter (\<lambda>sp. prefix sp s) whitespace of [] \<Rightarrow> 0 | sp # _ \<Rightarrow> length sp)"

definition trailing_space :: "string \<Rightarrow> nat" where
  "trailing_space s = (case filter (\<lambda>sp. suffix sp s) whitespace of [] \<Rightarrow> 0 | sp # _ \<Rightarrow> length sp)"

function lstrip :: "string \<Rightarrow> string" where
  "lstrip s = (if s = [] \<or> leading_space s = 0 then s else lstrip (drop (leading_space s) s))"
  by pat_completeness auto
termination
  by (relation "measure length") auto

function rstrip :: "string \<Rightarrow> string" where
  "rstrip s = (if s = [] \<or> trailing_space s = 0 then s
               else rstrip (take (length s - trailing_space s) s))"
  by pat_completeness auto
termination
  by (relation "measure length") auto

declare lstrip.simps [simp del] rstrip.simps [simp del]

text \<open>\<open>s.strip()\<close>\<close>

definition strip :: "string \<Rightarrow> string" where
  "strip s = rstrip (lstrip s)"

text \<open>\<open>s.split(sep)\<close> for a separator of one ASCII character: never an empty list.\<close>

fun split_on :: "char \<Rightarrow> string \<Rightarrow> string list" where
  "split_on sep [] = [[]]"
| "split_on sep (c # s) =
     (if c = sep then [] # split_on sep s
      else (case split_on sep s of [] \<Rightarrow> [[c]] | piece # pieces \<Rightarrow> (c # piece) # pieces))"

text \<open>
  \<open>s.replace(old, new)\<close> for a non-empty \<open>old\<close> (its one call site passes the fullwidth
  comma): the occurrences are replaced from the left, without overlap.
\<close>

function replace_all :: "string \<Rightarrow> string \<Rightarrow> string \<Rightarrow> string" where
  "replace_all old new [] = []"
| "replace_all old new (c # s) =
     (if prefix old (c # s) then new @ replace_all old new (drop (length old - 1) s)
      else c # replace_all old new s)"
  by pat_completeness auto
termination
  by (relation "measure (\<lambda>(old, new, s). length s)") auto

text \<open>The fullwidth comma U+FF0C.\<close>

definition fullwidth_comma :: string where
  "fullwidth_comma = [CHR 0xEF, CHR 0xBC, CHR 0x8C]"

text \<open>The code points of a string, each as a string of its own (what iterating a \<open>str\<close> yields).\<close>

definition utf8_width :: "char \<Rightarrow> nat" where
  "utf8_width c =
     (let n = (of_char c :: nat)
      in if n < 0xC0 then 1 else if n < 0xE0 then 2 else if n < 0xF0 then 3 else 4)"

function code_points :: "string \<Rightarrow> string list" where
  "code_points [] = []"
| "code_points (c # s) =
     (c # take (utf8_width c - 1) s) # code_points (drop (utf8_width c - 1) s)"
  by pat_completeness auto
termination
  by (relation "measure length") auto

text \<open>\<open>str(n)\<close> for a natural number: its decimal numeral.\<close>

definition digit_char :: "nat \<Rightarrow> char" where
  "digit_char d = char_of (48 + d)"

function str_nat :: "nat \<Rightarrow> string" where
  "str_nat n = (if n < 10 then [digit_char n] else str_nat (n div 10) @ [digit_char (n mod 10)])"
  by pat_completeness auto
termination
  by (relation "measure id") auto

declare str_nat.simps [simp del]

text \<open>
  \<open>int(s)\<close> is a parameter of the model, \<open>py_int\<close> below: \<open>None\<close> where Python raises
  ValueError. The numerals written in ASCII digits, which every \<open>int\<close> accepts, are read by
  \<open>ascii_int\<close>; it instantiates the parameter on concrete inputs.
\<close>

definition digit_value :: "char \<Rightarrow> nat option" where
  "digit_value c =
     (let n = (of_char c :: nat) in if 48 \<le> n \<and> n \<le> 57 then Some (n - 48) else None)"

fun digits_value :: "nat \<Rightarrow> string \<Rightarrow> nat option" where
  "digits_value acc [] = Some acc"
| "digits_value acc (c # s) =
     (case digit_value c of None \<Rightarrow> None | Some d \<Rightarrow> digits_value (10 * acc + d) s)"

definition unsigned_value :: "string \<Rightarrow> int option" where
  "unsigned_value s = (if s = [] then None else map_option int (digits_value 0 s))"

definition ascii_int :: "string \<Rightarrow> int option" where
  "ascii_int s =
     (case strip s of
        [] \<Rightarrow> None
      | c # r \<Rightarrow>
          if c = CHR ''-'' then map_option uminus (unsigned_value r)
          else if c = CHR ''+'' then unsigned_value r
          else unsigned_value (c # r))"

section \<open>The data model\<close>

text \<open>
  The page's metadata is a tree of JSON objects read with \<open>dict.get(key, default)\<close>. A key
  that may be absent is an \<open>option\<close>; \<open>get_or\<close> is \<open>.get\<close> with its default. The lists
  \<open>sections\<close> and \<open>episodes\<close> default to the empty list, so an absent key is \<open>[]\<close>.
\<close>

definition get_or :: "'a option \<Rightarrow> 'a \<Rightarrow> 'a" where
  "get_or field dflt = (case field of None \<Rightarrow> dflt | Some v \<Rightarrow> v)"

record episode =
  ep_title :: "string option"
  ep_long_title :: "string option"
  ep_bvid :: "string option"
  ep_aid :: "int option"

record section_rec =
  sec_title :: "string option"
  episodes :: "episode list"

text \<open>
  \<open>data\<close>: \<open>page_bvid\<close> is \<open>data['videoData']['bvid']\<close>, \<open>season_title\<close> and \<open>sections\<close> are
  the \<open>title\<close> and \<open>sections\<close> of \<open>data['videoData']['ugc_season']\<close>.
\<close>

record metadata =
  page_bvid :: "string option"
  season_title :: "string option"
  sections :: "section_rec list"

text \<open>The dictionary \<open>{'title': ..., 'bvid': ..., 'aid': ...}\<close> that selection returns.\<close>

record video =
  title :: string
  bvid :: string
  aid :: "int option"

text \<open>The default titles, two fixed Chinese strings (UTF-8), and the joined display title.\<close>

definition unknown_title :: string where
  "unknown_title =
     [CHR 0xE6, CHR 0x9C, CHR 0xAA, CHR 0xE7, CHR 0x9F, CHR 0xA5,
      CHR 0xE6, CHR 0xA0, CHR 0x87, CHR 0xE9, CHR 0xA2, CHR 0x98]"

definition unnamed_part :: string where
  "unnamed_part =
     [CHR 0xE6, CHR 0x9C, CHR 0xAA, CHR 0xE5, CHR 0x91, CHR 0xBD, CHR 0xE5, CHR 0x90,
      CHR 0x8D, CHR 0xE9, CHR 0x83, CHR 0xA8, CHR 0xE5, CHR 0x88, CHR 0x86]"

definition display_title :: "episode \<Rightarrow> string" where
  "display_title e =
     (let t = get_or (ep_title e) unknown_title;
          long_title = get_or (ep_long_title e) []
      in if long_title \<noteq> [] then t @ '' - '' @ long_title else t)"

definition episode_bvid :: "episode \<Rightarrow> string" where
  "episode_bvid e = get_or (ep_bvid e) []"

definition video_info :: "episode \<Rightarrow> video" where
  "video_info e = \<lparr>title = display_title e, bvid = episode_bvid e, aid = ep_aid e\<rparr>"

section \<open>JSON documents and Python sets\<close>

text \<open>
  What \<open>json.load\<close> returns. Numbers are integers here: a fractional number in a progress
  record is outside the model.
\<close>

datatype jval =
    JNull
  | JBool bool
  | JNum int
  | JStr string
  | JArr "jval list"
  | JObj "(string \<times> jval) list"

text \<open>
  A Python set is modelled by the list of its elements in iteration order, without
  repetition. Python compares \<open>True\<close> and \<open>1\<close> (and \<open>False\<close> and \<open>0\<close>) equal, so elements
  are compared through \<open>hkey\<close>. Lists and dicts are unhashable.
\<close>

fun hkey :: "jval \<Rightarrow> jval" where
  "hkey (JBool b) = JNum (if b then 1 else 0)"
| "hkey v = v"

fun hashable :: "jval \<Rightarrow> bool" where
  "hashable (JArr xs) = False"
| "hashable (JObj kvs) = False"
| "hashable v = True"

type_synonym pyset = "jval list"

text \<open>\<open>x in s\<close> and \<open>s.add(x)\<close>\<close>

definition py_in :: "jval \<Rightarrow> pyset \<Rightarrow> bool" where
  "py_in x s = (hkey x \<in> hkey ` set s)"

definition set_add :: "jval \<Rightarrow> pyset \<Rightarrow> pyset" where
  "set_add x s = (if py_in x s then s else s @ [x])"

section \<open>Exceptions, the console and the file system\<close>

text \<open>
  The exceptions the modelled code can meet. \<open>except Exception\<close> catches every one of
  them but KeyboardInterrupt. \<open>StageError\<close> stands for whatever the download, audio and
  transcription libraries raise.
\<close>

datatype exn =
    OSError
  | JSONDecodeError
  | TypeError
  | ValueError
  | IndexError
  | EOFError
  | StageError
  | KeyboardInterrupt

fun is_Exception :: "exn \<Rightarrow> bool" where
  "is_Exception KeyboardInterrupt = False"
| "is_Exception e = True"

text \<open>
  The lines written to the console, one constructor for each \<open>print\<close> of the source with
  the values it interpolates; a run of prints of fixed text is one line.
\<close>

datatype line =
    Banner
  | CollectionTitle string
  | TotalEpisodes nat
  | Rule
  | SectionHeading nat string
  | EpisodeEntry nat string string
  | Blank
  | Menu
  | AskChoice
  | AskIds
  | AskRange
  | AskLine
  | Skipped string
  | BadRange nat
  | BadFormat
  | LoadFailed exn
  | SaveFailed exn
  | NoVideoInfo
  | Processing string
  | TranscriptExists string
  | DownloadFailed

text \<open>
  A file either holds a JSON document or something else (\<open>Other\<close>: text that does not
  parse, media). \<open>unopenable\<close> are the paths at which \<open>open\<close> raises OSError.
\<close>

datatype file_content = Other | Json jval

text \<open>The methods of the class whose invocations are recorded, with their arguments.\<close>

datatype call =
    Call_save_progress string pyset
  | Call_download_video video
  | Call_extract_audio string string string
  | Call_split_audio string string string
  | Call_transcribe_audio "string list" string string

record world =
  files :: "string \<Rightarrow> file_content option"
  unopenable :: "string set"
  console :: "line list"
  stdin :: "string list"
  calls :: "call list"

type_synonym 'a result = "(exn \<times> world) + ('a \<times> world)"

text \<open>\<open>print(...)\<close>\<close>

definition emit :: "line \<Rightarrow> world \<Rightarrow> world" where
  "emit l w = w\<lparr>console := console w @ [l]\<rparr>"

definition emit_all :: "line list \<Rightarrow> world \<Rightarrow> world" where
  "emit_all ls w = w\<lparr>console := console w @ ls\<rparr>"

definition record_call :: "call \<Rightarrow> world \<Rightarrow> world" where
  "record_call c w = w\<lparr>calls := calls w @ [c]\<rparr>"

text \<open>\<open>input(prompt)\<close>: writes the prompt and reads a line; EOFError at the end of input.\<close>

definition input :: "line \<Rightarrow> world \<Rightarrow> string result" where
  "input prompt w =
     (let w1 = emit prompt w
      in case stdin w1 of
           [] \<Rightarrow> Inl (EOFError, w1)
         | l # ls \<Rightarrow> Inr (l, w1\<lparr>stdin := ls\<rparr>))"

text \<open>\<open>os.path.exists(p)\<close>, \<open>os.path.join(a, b)\<close> (POSIX) and \<open>self.base_dir\<close>\<close>

definition path_exists :: "string \<Rightarrow> world \<Rightarrow> bool" where
  "path_exists p w = (files w p \<noteq> None)"

definition path_join :: "string \<Rightarrow> string \<Rightarrow> string" where
  "path_join a b =
     (if b \<noteq> [] \<and> hd b = CHR ''/'' then b
      else if a = [] \<or> last a = CHR ''/'' then a @ b
      else a @ ''/'' @ b)"

definition base_dir :: string where
  "base_dir = ''bilibili_video''"

section \<open>The progress ledger\<close>

text \<open>\<open>open(p, 'r')\<close> followed by \<open>json.load\<close>\<close>

definition open_read :: "string \<Rightarrow> world \<Rightarrow> exn + file_content" where
  "open_read p w =
     (if p \<in> unopenable w then Inl OSError
      else case files w p of None \<Rightarrow> Inl OSError | Some f \<Rightarrow> Inr f)"

definition json_load :: "file_content \<Rightarrow> exn + jval" where
  "json_load f = (case f of Other \<Rightarrow> Inl JSONDecodeError | Json v \<Rightarrow> Inr v)"

text \<open>
  \<open>set(v)\<close>: iterates a list, the keys of a dict or the code points of a string, and
  raises TypeError on anything else and on an unhashable element.
\<close>

definition iterate :: "jval \<Rightarrow> exn + jval list" where
  "iterate v =
     (case v of
        JArr xs \<Rightarrow> Inr xs
      | JObj kvs \<Rightarrow> Inr (map (\<lambda>kv. JStr (fst kv)) kvs)
      | JStr s \<Rightarrow> Inr (map JStr (code_points s))
      | _ \<Rightarrow> Inl TypeError)"

fun add_items :: "jval list \<Rightarrow> pyset \<Rightarrow> exn + pyset" where
  "add_items [] s = Inr s"
| "add_items (x # xs) s = (if hashable x then add_items xs (set_add x s) else Inl TypeError)"

definition py_set :: "jval \<Rightarrow> exn + pyset" where
  "py_set v = (case iterate v of Inl e \<Rightarrow> Inl e | Inr xs \<Rightarrow> add_items xs [])"

text \<open>The body of the \<open>try\<close> in \<open>_load_progress\<close>: \<open>set(json.load(f))\<close> on the opened file.\<close>

definition read_progress :: "string \<Rightarrow> world \<Rightarrow> exn + pyset" where
  "read_progress progress_file w =
     (case open_read progress_file w of
        Inl e \<Rightarrow> Inl e
      | Inr f \<Rightarrow> (case json_load f of Inl e \<Rightarrow> Inl e | Inr v \<Rightarrow> py_set v))"

definition progress_path :: "string \<Rightarrow> string" where
  "progress_path collection_id = path_join base_dir (''progress_'' @ collection_id @ ''.json'')"

definition load_progress :: "string \<Rightarrow> world \<Rightarrow> pyset result" where
  "load_progress collection_id w =
     (let progress_file = progress_path collection_id
      in if path_exists progress_file w then
           (case read_progress progress_file w of
              Inr s \<Rightarrow> Inr (s, w)
            | Inl e \<Rightarrow>
                if is_Exception e then Inr ([], emit (LoadFailed e) w)
                else Inl (e, w))
         else Inr ([], w))"

text \<open>
  \<open>open(p, 'w')\<close> truncates or creates the file; \<open>json.dump(list(s), f)\<close> then writes the
  elements as a JSON array. Every element of a set read from JSON can be written back.
\<close>

definition open_write :: "string \<Rightarrow> world \<Rightarrow> exn + world" where
  "open_write p w =
     (if p \<in> unopenable w then Inl OSError
      else Inr (w\<lparr>files := (files w)(p \<mapsto> Other)\<rparr>))"

definition json_dump :: "jval \<Rightarrow> string \<Rightarrow> world \<Rightarrow> world" where
  "json_dump v p w = w\<lparr>files := (files w)(p \<mapsto> Json v)\<rparr>"

definition save_progress :: "string \<Rightarrow> pyset \<Rightarrow> world \<Rightarrow> unit result" where
  "save_progress collection_id downloaded_videos w0 =
     (let w = record_call (Call_save_progress collection_id downloaded_videos) w0;
          progress_file = progress_path collection_id
      in case open_write progress_file w of
           Inr w1 \<Rightarrow> Inr ((), json_dump (JArr downloaded_videos) progress_file w1)
         | Inl e \<Rightarrow>
             if is_Exception e then Inr ((), emit (SaveFailed e) w)
             else Inl (e, w))"

section \<open>Selection: \<open>process_collection\<close>\<close>

text \<open>The listing of the collection and the menu (the prints before the first \<open>input\<close>).\<close>

definition show_episode :: "episode \<Rightarrow> nat \<times> line list \<Rightarrow> nat \<times> line list" where
  "show_episode e st =
     (case st of (video_index, out) \<Rightarrow>
        (video_index + 1, out @ [EpisodeEntry video_index (episode_bvid e) (display_title e)]))"

definition show_section :: "bool \<Rightarrow> nat \<times> section_rec \<Rightarrow> nat \<times> line list \<Rightarrow> nat \<times> line list" where
  "show_section many isec st =
     (case isec of (section_index, sec) \<Rightarrow>
        let st1 = (if many
                   then (fst st, snd st @ [SectionHeading section_index
                                             (get_or (sec_title sec) unnamed_part), Rule])
                   else st);
            st2 = foldl (\<lambda>s e. show_episode e s) st1 (episodes sec)
        in if many then (fst st2, snd st2 @ [Blank]) else st2)"

definition show_collection :: "metadata \<Rightarrow> world \<Rightarrow> world" where
  "show_collection data w =
     (let secs = sections data;
          total_episodes = sum_list (map (\<lambda>sec. length (episodes sec)) secs);
          w1 = emit_all [Banner, CollectionTitle (get_or (season_title data) unknown_title),
                         TotalEpisodes total_episodes, Rule] w;
          listing = snd (foldl (\<lambda>st isec. show_section (1 < length secs) isec st) (1, [])
                          (zip [1..<Suc (length secs)] secs))
      in emit_all (listing @ [Rule, Menu]) w1)"

text \<open>
  Choice \<open>'1'\<close>: the two nested loops over sections and episodes. The state of the loop
  is \<open>selected_videos\<close> and the lines printed so far.
\<close>

definition select_episode :: "pyset \<Rightarrow> episode \<Rightarrow> video list \<times> line list \<Rightarrow> video list \<times> line list" where
  "select_episode downloaded_videos e st =
     (case st of (selected_videos, out) \<Rightarrow>
        let b = episode_bvid e
        in if py_in (JStr b) downloaded_videos then (selected_videos, out @ [Skipped b])
           else if b \<noteq> [] then (selected_videos @ [video_info e], out)
           else (selected_videos, out))"

definition select_all :: "pyset \<Rightarrow> section_rec list \<Rightarrow> video list \<times> line list" where
  "select_all downloaded_videos secs =
     foldl (\<lambda>st sec. foldl (\<lambda>st e. select_episode downloaded_videos e st) st (episodes sec))
       ([], []) secs"

text \<open>
  Choice \<open>'2'\<close>: the operator's line is cut into tokens, the dictionary \<open>video_map\<close> is
  built by assignment under \<open>str(index)\<close> and then under the bvid, and each token that is
  a key appends its entry.
\<close>

definition tokens :: "string \<Rightarrow> string list" where
  "tokens raw =
     (let selection = replace_all fullwidth_comma '','' (strip raw)
      in [strip x. x \<leftarrow> split_on CHR '','' selection, strip x \<noteq> []])"

definition map_episode :: "episode \<Rightarrow> (string \<rightharpoonup> video) \<times> nat \<Rightarrow> (string \<rightharpoonup> video) \<times> nat" where
  "map_episode e st =
     (case st of (video_map, index) \<Rightarrow>
        let b = episode_bvid e
        in if b \<noteq> []
           then ((video_map(str_nat index \<mapsto> video_info e))(b \<mapsto> video_info e), index + 1)
           else (video_map, index))"

definition build_video_map :: "section_rec list \<Rightarrow> (string \<rightharpoonup> video)" where
  "build_video_map secs =
     fst (foldl (\<lambda>st sec. foldl (\<lambda>st e. map_episode e st) st (episodes sec))
            (Map.empty, 1) secs)"

definition select_by_ids :: "(string \<rightharpoonup> video) \<Rightarrow> string list \<Rightarrow> video list" where
  "select_by_ids video_map selected_bvids =
     foldl (\<lambda>selected_videos selection.
              case video_map selection of
                None \<Rightarrow> selected_videos
              | Some v \<Rightarrow> selected_videos @ [v])
       [] selected_bvids"

text \<open>
  Choice \<open>'3'\<close>: \<open>start, end = map(int, line.strip().split(','))\<close> raises ValueError unless
  there are exactly two pieces and \<open>int\<close> accepts both; \<open>all_videos\<close> holds the episodes
  that have a bvid; the loop over \<open>range(start-1, end)\<close> indexes it.
\<close>

definition parse_range :: "(string \<Rightarrow> int option) \<Rightarrow> string \<Rightarrow> (int \<times> int) option" where
  "parse_range py_int raw =
     (case map py_int (split_on CHR '','' (strip raw)) of
        [Some start, Some end] \<Rightarrow> Some (start, end)
      | _ \<Rightarrow> None)"

definition collect_videos :: "section_rec list \<Rightarrow> video list" where
  "collect_videos secs =
     foldl (\<lambda>all_videos sec.
              foldl (\<lambda>all_videos e.
                       if episode_bvid e \<noteq> [] then all_videos @ [video_info e] else all_videos)
                all_videos (episodes sec))
       [] secs"

definition py_index :: "'a list \<Rightarrow> int \<Rightarrow> exn + 'a" where
  "py_index xs i =
     (if 0 \<le> i \<and> i < int (length xs) then Inr (xs ! nat i)
      else if i < 0 \<and> - int (length xs) \<le> i then Inr (xs ! nat (int (length xs) + i))
      else Inl IndexError)"

fun range_loop ::
  "pyset \<Rightarrow> video list \<Rightarrow> int list \<Rightarrow> video list \<times> line list
     \<Rightarrow> (exn \<times> video list \<times> line list) + (video list \<times> line list)" where
  "range_loop downloaded_videos all_videos [] st = Inr st"
| "range_loop downloaded_videos all_videos (i # rest) st =
     (case py_index all_videos i of
        Inl e \<Rightarrow> Inl (e, st)
      | Inr v \<Rightarrow>
          if \<not> py_in (JStr (bvid v)) downloaded_videos
          then range_loop downloaded_videos all_videos rest (fst st @ [v], snd st)
          else range_loop downloaded_videos all_videos rest (fst st, snd st @ [Skipped (bvid v)]))"

definition select_range ::
  "pyset \<Rightarrow> section_rec list \<Rightarrow> int \<Rightarrow> int
     \<Rightarrow> (exn \<times> video list \<times> line list) + (video list \<times> line list)" where
  "select_range downloaded_videos secs start end =
     (let all_videos = collect_videos secs
      in if 1 \<le> start \<and> start \<le> end \<and> end \<le> int (length all_videos)
         then range_loop downloaded_videos all_videos [start - 1 .. end - 1] ([], [])
         else Inr ([], [BadRange (length all_videos)]))"

text \<open>
  \<open>process_collection(data)\<close>. The handler of choice \<open>'3'\<close> catches ValueError and
  IndexError only; \<open>selected_videos\<close> keeps what the loop had appended when it is reached.
\<close>

definition process_collection :: "(string \<Rightarrow> int option) \<Rightarrow> metadata \<Rightarrow> world \<Rightarrow> video list result" where
  "process_collection py_int data w0 =
     (let secs = sections data;
          collection_id = get_or (page_bvid data) []
      in case load_progress collection_id w0 of
           Inl x \<Rightarrow> Inl x
         | Inr (downloaded_videos, w1) \<Rightarrow>
             (case input AskChoice (show_collection data w1) of
                Inl x \<Rightarrow> Inl x
              | Inr (choice, w2) \<Rightarrow>
                  if choice = ''1'' then
                    (case select_all downloaded_videos secs of
                       (selected_videos, out) \<Rightarrow> Inr (selected_videos, emit_all out w2))
                  else if choice = ''2'' then
                    (case input AskLine (emit AskIds w2) of
                       Inl x \<Rightarrow> Inl x
                     | Inr (raw, w3) \<Rightarrow>
                         Inr (select_by_ids (build_video_map secs) (tokens raw), w3))
                  else if choice = ''3'' then
                    (case input AskLine (emit AskRange w2) of
                       Inl x \<Rightarrow> Inl x
                     | Inr (raw, w3) \<Rightarrow>
                         (case parse_range py_int raw of
                            None \<Rightarrow> Inr ([], emit BadFormat w3)
                          | Some (start, end) \<Rightarrow>
                              (case select_range downloaded_videos secs start end of
                                 Inr (selected_videos, out) \<Rightarrow>
                                   Inr (selected_videos, emit_all out w3)
                               | Inl (e, selected_videos, out) \<Rightarrow>
                                   if e = ValueError \<or> e = IndexError
                                   then Inr (selected_videos, emit BadFormat (emit_all out w3))
                                   else Inl (e, emit_all out w3))))
                  else Inr ([], w2)))"

section \<open>The pipeline: \<open>process_video\<close>\<close>

text \<open>
  What lies outside the program is a parameter: the answers of the site to
  \<open>check_collection\<close> (\<open>Some data\<close> for \<open>(True, data)\<close>, \<open>None\<close> for any \<open>(False, _)\<close>), the
  list the single-video branch of \<open>extract_video_info\<close> returns, and, for each pass of
  the loop over the videos, how the downloader, ffmpeg, the audio library and the
  speech model behave.
\<close>

datatype fetch = Fetched | NotFetched | FetchRaised exn

record env =
  env_int :: "string \<Rightarrow> int option"
  first_check :: "metadata option"
  api_videos :: "video list"
  second_check :: "metadata option"
  fetch_outcome :: "nat \<Rightarrow> fetch"
  ffmpeg_outcome :: "nat \<Rightarrow> exn option"
  audio_length :: "nat \<Rightarrow> exn + nat"
  whisper_outcome :: "nat \<Rightarrow> exn option"

definition extract_video_info :: "env \<Rightarrow> world \<Rightarrow> video list result" where
  "extract_video_info env w =
     (case first_check env of
        Some data \<Rightarrow> process_collection (env_int env) data w
      | None \<Rightarrow> Inr (api_videos env, w))"

text \<open>
  The four stages. Each records its invocation. The downloader returns the path when the
  file is there already or was fetched, \<open>None\<close> when it gave up; the other stages return
  or raise. The stages' own console lines are left out.
\<close>

definition download_video :: "env \<Rightarrow> nat \<Rightarrow> video \<Rightarrow> world \<Rightarrow> string option result" where
  "download_video env i v w0 =
     (let w = record_call (Call_download_video v) w0;
          video_dir = ''bilibili_video/'' @ title v @ ''/video'';
          video_path = video_dir @ ''/'' @ bvid v @ ''.mp4''
      in if path_exists video_path w then Inr (Some video_path, w)
         else case fetch_outcome env i of
                FetchRaised e \<Rightarrow> Inl (e, w)
              | NotFetched \<Rightarrow> Inr (None, w)
              | Fetched \<Rightarrow> Inr (Some video_path, w\<lparr>files := (files w)(video_path \<mapsto> Other)\<rparr>))"

definition extract_audio :: "env \<Rightarrow> nat \<Rightarrow> string \<Rightarrow> string \<Rightarrow> string \<Rightarrow> world \<Rightarrow> string result" where
  "extract_audio env i video_path t video_id w0 =
     (let w = record_call (Call_extract_audio video_path t video_id) w0;
          audio_dir = ''bilibili_video/'' @ t @ ''/conv'';
          audio_path = audio_dir @ ''/'' @ video_id @ ''.mp3''
      in if path_exists audio_path w then Inr (audio_path, w)
         else case ffmpeg_outcome env i of
                Some e \<Rightarrow> Inl (e, w)
              | None \<Rightarrow> Inr (audio_path, w\<lparr>files := (files w)(audio_path \<mapsto> Other)\<rparr>))"

definition split_audio :: "env \<Rightarrow> nat \<Rightarrow> string \<Rightarrow> string \<Rightarrow> string \<Rightarrow> world \<Rightarrow> string list result" where
  "split_audio env i audio_path t video_id w0 =
     (let w = record_call (Call_split_audio audio_path t video_id) w0;
          slice_dir = ''bilibili_video/'' @ t @ ''/slice/'' @ video_id;
          chunk_length = 45000
      in case audio_length env i of
           Inl e \<Rightarrow> Inl (e, w)
         | Inr len \<Rightarrow>
             (let chunks = map (\<lambda>k. slice_dir @ ''/'' @ str_nat k @ ''.mp3'')
                             [0 ..< (len + chunk_length - 1) div chunk_length]
              in Inr (chunks, w\<lparr>files := foldl (\<lambda>fs chunk_path. fs(chunk_path \<mapsto> Other))
                                             (files w) chunks\<rparr>)))"

definition transcribe_audio :: "env \<Rightarrow> nat \<Rightarrow> string list \<Rightarrow> string \<Rightarrow> string \<Rightarrow> world \<Rightarrow> string result" where
  "transcribe_audio env i audio_chunks t video_id w0 =
     (let w = record_call (Call_transcribe_audio audio_chunks t video_id) w0;
          output_dir = ''bilibili_video/'' @ t @ ''/outputs'';
          output_path = output_dir @ ''/'' @ video_id @ ''.txt''
      in case whisper_outcome env i of
           Some e \<Rightarrow> Inl (e, w)
         | None \<Rightarrow> Inr (output_path, w\<lparr>files := (files w)(output_path \<mapsto> Other)\<rparr>))"

text \<open>
  The body of the loop of \<open>process_video\<close> for one video, in pass \<open>i\<close>: it returns
  \<open>downloaded_videos\<close> as the pass leaves it. \<open>continue\<close> ends the body; an exception of a
  stage is not caught.
\<close>

definition loop_body :: "env \<Rightarrow> string \<Rightarrow> nat \<Rightarrow> video \<Rightarrow> pyset \<Rightarrow> world \<Rightarrow> pyset result" where
  "loop_body env collection_id i v downloaded_videos w0 =
     (let w = emit (Processing (title v)) w0;
          output_dir = ''bilibili_video/'' @ title v @ ''/outputs'';
          output_path = output_dir @ ''/'' @ bvid v @ ''.txt''
      in if path_exists output_path w
         then Inr (downloaded_videos, emit (TranscriptExists output_path) w)
         else
           (case download_video env i v w of
              Inl x \<Rightarrow> Inl x
            | Inr (None, w1) \<Rightarrow> Inr (downloaded_videos, emit DownloadFailed w1)
            | Inr (Some video_path, w1) \<Rightarrow>
                (case extract_audio env i video_path (title v) (bvid v) w1 of
                   Inl x \<Rightarrow> Inl x
                 | Inr (audio_path, w2) \<Rightarrow>
                     (case split_audio env i audio_path (title v) (bvid v) w2 of
                        Inl x \<Rightarrow> Inl x
                      | Inr (audio_chunks, w3) \<Rightarrow>
                          (case transcribe_audio env i audio_chunks (title v) (bvid v) w3 of
                             Inl x \<Rightarrow> Inl x
                           | Inr (_, w4) \<Rightarrow>
                               if collection_id \<noteq> [] then
                                 (let added = set_add (JStr (bvid v)) downloaded_videos
                                  in case save_progress collection_id added w4 of
                                       Inl x \<Rightarrow> Inl x
                                     | Inr (_, w5) \<Rightarrow> Inr (added, w5))
                               else Inr (downloaded_videos, w4))))))"

text \<open>The loop over the selected videos; an exception ends it and the run.\<close>

fun video_loop :: "env \<Rightarrow> string \<Rightarrow> nat \<Rightarrow> video list \<Rightarrow> pyset \<Rightarrow> world \<Rightarrow> pyset result" where
  "video_loop env collection_id i [] downloaded_videos w = Inr (downloaded_videos, w)"
| "video_loop env collection_id i (v # rest) downloaded_videos w =
     (case loop_body env collection_id i v downloaded_videos w of
        Inl x \<Rightarrow> Inl x
      | Inr (downloaded_videos', w') \<Rightarrow>
          video_loop env collection_id (i + 1) rest downloaded_videos' w')"

definition process_video :: "env \<Rightarrow> world \<Rightarrow> pyset result" where
  "process_video env w0 =
     (case extract_video_info env w0 of
        Inl x \<Rightarrow> Inl x
      | Inr (videos, w1) \<Rightarrow>
          if videos = [] then Inr ([], emit NoVideoInfo w1)
          else
            (let collection_id =
                   (case second_check env of
                      Some data \<Rightarrow> get_or (page_bvid data) []
                    | None \<Rightarrow> [])
             in case (if collection_id \<noteq> [] then load_progress collection_id w1
                      else Inr ([], w1)) of
                  Inl x \<Rightarrow> Inl x
                | Inr (downloaded_videos, w2) \<Rightarrow>
                    video_loop env collection_id 0 videos downloaded_videos w2))"

section \<open>Notions used in the statements\<close>

text \<open>What a run returned (\<open>None\<close> when it raised) and the world it left.\<close>

definition returned :: "'a result \<Rightarrow> 'a option" where
  "returned r = (case r of Inl _ \<Rightarrow> None | Inr (x, _) \<Rightarrow> Some x)"

definition world_of :: "'a result \<Rightarrow> world" where
  "world_of r = (case r of Inl (_, w) \<Rightarrow> w | Inr (_, w) \<Rightarrow> w)"

text \<open>Two worlds: one with no file at all, one whose progress record is not JSON.\<close>

definition no_files :: world where
  "no_files = \<lparr>files = Map.empty, unopenable = {}, console = [], stdin = [], calls = []\<rparr>"

definition damaged_record :: world where
  "damaged_record = no_files\<lparr>files := [''bilibili_video/progress_BV1c.json'' \<mapsto> Other]\<rparr>"

text \<open>The episodes of all sections, in section order then episode order.\<close>

definition all_episodes :: "section_rec list \<Rightarrow> episode list" where
  "all_episodes secs = concat (map episodes secs)"

text \<open>
  The set \<open>process_collection\<close> loads for the collection, and the world after the load
  (it differs from the world before by at most a reported failure).
\<close>

definition loaded_ledger :: "metadata \<Rightarrow> world \<Rightarrow> pyset" where
  "loaded_ledger data w =
     (case returned (load_progress (get_or (page_bvid data) []) w) of None \<Rightarrow> [] | Some s \<Rightarrow> s)"

definition after_load :: "metadata \<Rightarrow> world \<Rightarrow> world" where
  "after_load data w = world_of (load_progress (get_or (page_bvid data) []) w)"


text \<open>The console up to the moment the operator's range has been read.\<close>

definition range_console :: "metadata \<Rightarrow> world \<Rightarrow> line list" where
  "range_console data w =
     console (show_collection data (after_load data w)) @ [AskChoice, AskRange, AskLine]"

text \<open>
  A collection of two sections of three episodes, a world whose ledger for it holds the
  second episode, and a collection whose first episode has no bvid.
\<close>

definition lesson :: "string \<Rightarrow> string \<Rightarrow> int \<Rightarrow> episode" where
  "lesson t b a = \<lparr>ep_title = Some t, ep_long_title = None, ep_bvid = Some b, ep_aid = Some a\<rparr>"

definition course :: metadata where
  "course =
     \<lparr>page_bvid = Some ''BV1c'', season_title = Some ''Course'',
      sections =
        [\<lparr>sec_title = Some ''Part A'',
          episodes = [lesson ''One'' ''BV1a'' 101, lesson ''Two'' ''BV2b'' 102,
                      lesson ''Three'' ''BV3c'' 103]\<rparr>,
         \<lparr>sec_title = Some ''Part B'',
          episodes = [lesson ''Four'' ''BV4d'' 104, lesson ''Five'' ''BV5e'' 105,
                      lesson ''Six'' ''BV6f'' 106]\<rparr>]\<rparr>"

definition resumed :: world where
  "resumed =
     no_files\<lparr>files := [''bilibili_video/progress_BV1c.json'' \<mapsto> Json (JArr [JStr ''BV2b''])]\<rparr>"

definition gap_data :: metadata where
  "gap_data =
     \<lparr>page_bvid = Some ''BV1c'', season_title = Some ''Course'',
      sections =
        [\<lparr>sec_title = None,
          episodes = [\<lparr>ep_title = Some ''Draft'', ep_long_title = None, ep_bvid = None,
                       ep_aid = None\<rparr>,
                      \<lparr>ep_title = Some ''Basics'', ep_long_title = Some ''part one'',
                       ep_bvid = Some ''BV2b'', ep_aid = Some 102\<rparr>]\<rparr>]\<rparr>"

text \<open>
  The assignments to \<open>video_map\<close> in the order the loop makes them: for each video of
  \<open>all_videos\<close>, first under \<open>str(index)\<close>, then under its bvid. \<open>assigned kvs k\<close> are the
  values assigned under the key \<open>k\<close>, in that order.
\<close>

fun assignments :: "nat \<Rightarrow> video list \<Rightarrow> (string \<times> video) list" where
  "assignments index [] = []"
| "assignments index (v # vs) = (str_nat index, v) # (bvid v, v) # assignments (index + 1) vs"

definition assigned :: "(string \<times> video) list \<Rightarrow> string \<Rightarrow> video list" where
  "assigned kvs k = map snd [kv \<leftarrow> kvs. fst kv = k]"

text \<open>A collection in which the bvid of the second episode is the position of the first.\<close>

definition colliding :: metadata where
  "colliding =
     \<lparr>page_bvid = Some ''BV1c'', season_title = Some ''Course'',
      sections = [\<lparr>sec_title = None,
                   episodes = [lesson ''One'' ''BVx'' 101, lesson ''Two'' ''1'' 102]\<rparr>]\<rparr>"

text \<open>The entries a list of tokens picks from a dictionary: in order, one for each token
  that is a key, none for the others.\<close>

definition picked :: "(string \<rightharpoonup> video) \<Rightarrow> string list \<Rightarrow> video list" where
  "picked m toks = concat (map (\<lambda>t. case m t of None \<Rightarrow> [] | Some v \<Rightarrow> [v]) toks)"

text \<open>The entries that the tokens find when every key holds the entry assigned to it
  last: for each token, in order, the last entry assigned under it, none when there is none.\<close>

definition last_assigned :: "(string \<times> video) list \<Rightarrow> string list \<Rightarrow> video list" where
  "last_assigned kvs toks =
     concat (map (\<lambda>k. if assigned kvs k = [] then [] else [last (assigned kvs k)]) toks)"

text \<open>The result of a run without the world: what it returned, or the exception.\<close>

definition outcome :: "'a result \<Rightarrow> exn + 'a" where
  "outcome r = (case r of Inl (e, _) \<Rightarrow> Inl e | Inr (x, _) \<Rightarrow> Inr x)"

text \<open>Two worlds with the same files, the same unopenable paths and the same calls.\<close>

definition same_store :: "world \<Rightarrow> world \<Rightarrow> bool" where
  "same_store w w' = (files w' = files w \<and> unopenable w' = unopenable w \<and> calls w' = calls w)"

text \<open>
  Two worlds whose ledgers for the course hold the same two episodes in different
  orders; the second world has another file and a line on its console.
\<close>

definition two_done :: world where
  "two_done =
     no_files\<lparr>files := [''bilibili_video/progress_BV1c.json''
                           \<mapsto> Json (JArr [JStr ''BV2b'', JStr ''BV5e''])]\<rparr>"

definition two_done_reordered :: world where
  "two_done_reordered =
     no_files\<lparr>files := [''bilibili_video/progress_BV1c.json''
                           \<mapsto> Json (JArr [JStr ''BV5e'', JStr ''BV2b'']),
                         ''notes.txt'' \<mapsto> Other],
               console := [Banner]\<rparr>"

text \<open>The path of a video's transcript, as \<open>process_video\<close> and \<open>transcribe_audio\<close> form it.\<close>

definition transcript_path :: "video \<Rightarrow> string" where
  "transcript_path v = ''bilibili_video/'' @ title v @ ''/outputs'' @ ''/'' @ bvid v @ ''.txt''"

text \<open>
  The arguments of the calls of \<open>_save_progress\<close> in a trace, in order, and whether a call
  of a stage is for a video of the given title and bvid.
\<close>

fun saves :: "call list \<Rightarrow> (string \<times> pyset) list" where
  "saves [] = []"
| "saves (Call_save_progress collection_id s # cs) = (collection_id, s) # saves cs"
| "saves (c # cs) = saves cs"

fun about :: "video \<Rightarrow> call \<Rightarrow> bool" where
  "about v (Call_save_progress collection_id s) = False"
| "about v (Call_download_video u) = (title u = title v \<and> bvid u = bvid v)"
| "about v (Call_extract_audio p t b) = (t = title v \<and> b = bvid v)"
| "about v (Call_split_audio p t b) = (t = title v \<and> b = bvid v)"
| "about v (Call_transcribe_audio ps t b) = (t = title v \<and> b = bvid v)"

text \<open>Every path that exists in the first world exists in the second.\<close>

definition grows :: "world \<Rightarrow> world \<Rightarrow> bool" where
  "grows w w' = (\<forall>p. path_exists p w \<longrightarrow> path_exists p w')"

text \<open>
  The calls of one pass for a video: calls of the stages for that video, and at most one
  save, of the set with the video's bvid added.
\<close>

definition pass_calls :: "video \<Rightarrow> string \<Rightarrow> pyset \<Rightarrow> call list \<Rightarrow> bool" where
  "pass_calls v cid dl cs =
     ((\<forall>c\<in>set cs. about v c \<or> c = Call_save_progress cid (set_add (JStr (bvid v)) dl))
      \<and> (saves cs = [] \<or> saves cs = [(cid, set_add (JStr (bvid v)) dl)]))"

text \<open>
  The calls of a run of the loop over \<open>vs\<close> started with the set \<open>dl\<close>, where \<open>w0\<close> is
  the world before the run: no stage is called for a video whose transcript existed in
  \<open>w0\<close>; there are no more saves than videos without a transcript in \<open>w0\<close>; every save
  is for the collection, and holds only elements of \<open>dl\<close> and bvids of such videos; and
  each saved set contains \<open>dl\<close> and every set saved before it.
\<close>

definition trace_ok :: "world \<Rightarrow> string \<Rightarrow> video list \<Rightarrow> pyset \<Rightarrow> call list \<Rightarrow> bool" where
  "trace_ok w0 cid vs dl cs =
     ((\<forall>u. path_exists (transcript_path u) w0 \<longrightarrow> (\<forall>c\<in>set cs. \<not> about u c))
      \<and> length (saves cs) \<le> length [u \<leftarrow> vs. \<not> path_exists (transcript_path u) w0]
      \<and> (\<forall>x\<in>set (saves cs). fst x = cid
            \<and> (\<forall>y\<in>set (snd x). y \<in> set dl
                  \<or> (\<exists>u\<in>set vs. y = JStr (bvid u) \<and> \<not> path_exists (transcript_path u) w0)))
      \<and> sorted_wrt (\<lambda>a b. set a \<subseteq> set b) (dl # map snd (saves cs)))"

text \<open>
  The collection id \<open>process_video\<close> works with, the set it starts its loop with (the
  set loaded for that id, or the empty set when there is no id), and the videos it
  loops over.
\<close>

definition run_collection_id :: "env \<Rightarrow> string" where
  "run_collection_id env =
     (case second_check env of Some data \<Rightarrow> get_or (page_bvid data) [] | None \<Rightarrow> [])"

definition start_ledger :: "env \<Rightarrow> world \<Rightarrow> pyset" where
  "start_ledger env w =
     (if run_collection_id env \<noteq> []
      then (case returned (load_progress (run_collection_id env) w) of
              None \<Rightarrow> [] | Some s \<Rightarrow> s)
      else [])"

definition selected :: "env \<Rightarrow> world \<Rightarrow> video list" where
  "selected env w = (case returned (extract_video_info env w) of None \<Rightarrow> [] | Some vs \<Rightarrow> vs)"

text \<open>
  A run on the course in which every stage succeeds and each audio track makes two
  segments; the ledger holds the second episode, the transcript of the first exists, and
  the operator asks for the range \<open>1,4\<close>. \<open>studio_trace\<close> lists the calls of that run.
\<close>

definition studio :: env where
  "studio =
     \<lparr>env_int = ascii_int, first_check = Some course, api_videos = [],
      second_check = Some course, fetch_outcome = (\<lambda>i. Fetched),
      ffmpeg_outcome = (\<lambda>i. None), audio_length = (\<lambda>i. Inr 60000),
      whisper_outcome = (\<lambda>i. None)\<rparr>"

definition second_visit :: world where
  "second_visit =
     no_files\<lparr>files := [''bilibili_video/progress_BV1c.json'' \<mapsto> Json (JArr [JStr ''BV2b'']),
                         ''bilibili_video/One/outputs/BV1a.txt'' \<mapsto> Other],
               stdin := [''3'', ''1,4'']\<rparr>"

definition studio_trace :: "call list" where
  "studio_trace =
     [Call_download_video \<lparr>title = ''Three'', bvid = ''BV3c'', aid = Some 103\<rparr>,
      Call_extract_audio ''bilibili_video/Three/video/BV3c.mp4'' ''Three'' ''BV3c'',
      Call_split_audio ''bilibili_video/Three/conv/BV3c.mp3'' ''Three'' ''BV3c'',
      Call_transcribe_audio [''bilibili_video/Three/slice/BV3c/0.mp3'',
                             ''bilibili_video/Three/slice/BV3c/1.mp3''] ''Three'' ''BV3c'',
      Call_save_progress ''BV1c'' [JStr ''BV2b'', JStr ''BV3c''],
      Call_download_video \<lparr>title = ''Four'', bvid = ''BV4d'', aid = Some 104\<rparr>,
      Call_extract_audio ''bilibili_video/Four/video/BV4d.mp4'' ''Four'' ''BV4d'',
      Call_split_audio ''bilibili_video/Four/conv/BV4d.mp3'' ''Four'' ''BV4d'',
      Call_transcribe_audio [''bilibili_video/Four/slice/BV4d/0.mp3'',
                             ''bilibili_video/Four/slice/BV4d/1.mp3''] ''Four'' ''BV4d'',
      Call_save_progress ''BV1c'' [JStr ''BV2b'', JStr ''BV3c'', JStr ''BV4d'']]"

section \<open>The ledger: loading and saving\<close>

lemma add_items_raises: "add_items xs s = Inl e \<Longrightarrow> e = TypeError"
  by (induction xs arbitrary: s) (auto split: if_splits)

lemma py_set_raises: "py_set v = Inl e \<Longrightarrow> e = TypeError"
  by (auto simp: py_set_def iterate_def split: jval.splits sum.splits dest: add_items_raises)

lemma read_progress_raises:
  "read_progress p w = Inl e \<Longrightarrow> e = OSError \<or> e = JSONDecodeError \<or> e = TypeError"
  by (auto simp: read_progress_def open_read_def json_load_def
           split: sum.splits if_splits option.splits file_content.splits dest: py_set_raises)

lemma read_progress_is_Exception: "read_progress p w = Inl e \<Longrightarrow> is_Exception e"
  by (drule read_progress_raises) auto

lemma load_progress_returns: "\<exists>s w'. load_progress collection_id w = Inr (s, w')"
  by (auto simp: load_progress_def Let_def split: sum.splits dest: read_progress_is_Exception)

text \<open>
  C5. For every collection id, \<open>_load_progress\<close> returns: it never raises. It returns the
  empty set when no progress record exists, and when opening, parsing or converting the
  record fails; the failure is then reported on the console.
\<close>

theorem load_progress_total:
  "(\<exists>s w'. load_progress collection_id w = Inr (s, w'))
   \<and> (\<not> path_exists (progress_path collection_id) w
        \<longrightarrow> load_progress collection_id w = Inr ([], w))
   \<and> (\<forall>e. path_exists (progress_path collection_id) w
            \<and> read_progress (progress_path collection_id) w = Inl e
        \<longrightarrow> load_progress collection_id w = Inr ([], emit (LoadFailed e) w))"
  by (auto simp: load_progress_def Let_def split: sum.splits dest: read_progress_is_Exception)

lemma hkey_JStr: "hkey y = JStr t \<longleftrightarrow> y = JStr t"
  by (cases y) (auto split: if_splits)

lemma py_in_JStr: "py_in (JStr t) s \<longleftrightarrow> JStr t \<in> set s"
  by (auto simp: py_in_def image_iff hkey_JStr eq_commute[of "JStr t"])

lemma set_add_JStr: "set (set_add (JStr t) s) = insert (JStr t) (set s)"
  by (auto simp: set_add_def py_in_JStr)

lemma add_items_strings:
  "\<exists>s'. add_items (map JStr xs) s = Inr s' \<and> set s' = set s \<union> JStr ` set xs"
proof (induction xs arbitrary: s)
  case Nil then show ?case by simp
next
  case (Cons x xs)
  from Cons.IH[of "set_add (JStr x) s"] show ?case
    by (auto simp: set_add_JStr)
qed

lemma distinct_set_add: "distinct s \<Longrightarrow> distinct (set_add x s)"
  by (auto simp: set_add_def py_in_def)


lemma add_items_distinct:
  "distinct xs \<Longrightarrow> \<forall>x\<in>set xs. JStr x \<notin> set s \<Longrightarrow> add_items (map JStr xs) s = Inr (s @ map JStr xs)"
proof (induction xs arbitrary: s)
  case Nil then show ?case by simp
next
  case (Cons x xs)
  have "set_add (JStr x) s = s @ [JStr x]" using Cons.prems by (simp add: set_add_def py_in_JStr)
  moreover have "add_items (map JStr xs) (s @ [JStr x]) = Inr ((s @ [JStr x]) @ map JStr xs)"
    using Cons.prems by (intro Cons.IH) auto
  ultimately show ?case by simp
qed

text \<open>
  C6. With no progress record, \<open>_load_progress\<close> returns the empty set. After a
  \<open>_save_progress\<close> of a set of strings that reported no failure, \<open>_load_progress\<close> for the
  same collection id returns exactly that set (in the same iteration order, when the
  list given has no repetition).
\<close>

theorem save_load_roundtrip:
  "(files w (progress_path collection_id) = None
      \<longrightarrow> returned (load_progress collection_id w) = Some [])
   \<and> (save_progress collection_id (map JStr xs) w = Inr ((), w1) \<and> console w1 = console w
      \<longrightarrow> (\<exists>s. returned (load_progress collection_id w1) = Some s
               \<and> set s = JStr ` set xs
               \<and> (distinct xs \<longrightarrow> s = map JStr xs)))"
proof (intro conjI impI)
  assume "files w (progress_path collection_id) = None"
  then show "returned (load_progress collection_id w) = Some []"
    by (simp add: load_progress_def path_exists_def returned_def)
next
  let ?p = "progress_path collection_id"
  assume a: "save_progress collection_id (map JStr xs) w = Inr ((), w1) \<and> console w1 = console w"
  have open_ok: "?p \<notin> unopenable w"
  proof
    assume "?p \<in> unopenable w"
    with a show False
      by (auto simp: save_progress_def open_write_def record_call_def emit_def Let_def)
  qed
  with a have w1: "files w1 ?p = Some (Json (JArr (map JStr xs)))" "?p \<notin> unopenable w1"
    by (auto simp: save_progress_def open_write_def record_call_def json_dump_def Let_def)
  obtain s where s: "add_items (map JStr xs) [] = Inr s" "set s = set [] \<union> JStr ` set xs"
    using add_items_strings[of xs "[]"] by blast
  have rd: "read_progress ?p w1 = Inr s"
    using w1 s by (simp add: read_progress_def open_read_def json_load_def py_set_def iterate_def)
  have "returned (load_progress collection_id w1) = Some s"
    using w1 rd by (simp add: load_progress_def path_exists_def returned_def)
  moreover have "distinct xs \<longrightarrow> s = map JStr xs"
    using add_items_distinct[of xs "[]"] s by auto
  ultimately show "\<exists>s. returned (load_progress collection_id w1) = Some s
               \<and> set s = JStr ` set xs \<and> (distinct xs \<longrightarrow> s = map JStr xs)"
    using s by auto
qed

theorem load_progress_total_witness:
  "load_progress ''BV1c'' no_files = Inr ([], no_files)
   \<and> read_progress (progress_path ''BV1c'') damaged_record = Inl JSONDecodeError
   \<and> load_progress ''BV1c'' damaged_record = Inr ([], emit (LoadFailed JSONDecodeError) damaged_record)"
proof -
  have p: "progress_path ''BV1c'' = ''bilibili_video/progress_BV1c.json''"
    by code_simp
  have a: "\<not> path_exists (progress_path ''BV1c'') no_files"
    by (simp add: p path_exists_def no_files_def)
  have b: "path_exists (progress_path ''BV1c'') damaged_record"
    by (simp add: p path_exists_def damaged_record_def)
  have c: "read_progress (progress_path ''BV1c'') damaged_record = Inl JSONDecodeError"
    by (simp add: p read_progress_def open_read_def json_load_def damaged_record_def no_files_def)
  show ?thesis
    using load_progress_total[of "''BV1c''" no_files] load_progress_total[of "''BV1c''" damaged_record] a b c
    by blast
qed

theorem save_load_roundtrip_witness:
  "returned (load_progress ''BV1c'' no_files) = Some []
   \<and> returned (load_progress ''BV1c''
         (world_of (save_progress ''BV1c'' [JStr ''a'', JStr ''b''] no_files)))
       = Some [JStr ''a'', JStr ''b'']"
proof -
  have p: "progress_path ''BV1c'' = ''bilibili_video/progress_BV1c.json''"
    by code_simp
  define w1 where "w1 = world_of (save_progress ''BV1c'' [JStr ''a'', JStr ''b''] no_files)"
  have a: "files no_files (progress_path ''BV1c'') = None"
    by (simp add: no_files_def)
  have b: "save_progress ''BV1c'' (map JStr [''a'', ''b'']) no_files = Inr ((), w1)"
    by (simp add: w1_def p save_progress_def open_write_def record_call_def json_dump_def Let_def no_files_def world_of_def)
  have c: "console w1 = console no_files"
    by (simp add: w1_def p save_progress_def open_write_def record_call_def json_dump_def Let_def no_files_def world_of_def)
  have d: "distinct [''a'', ''b'']" by simp
  show ?thesis
    using save_load_roundtrip[of no_files "''BV1c''" "[''a'', ''b'']" w1] a b c d
    unfolding w1_def by auto
qed

section \<open>Selection\<close>

lemma foldl_sections:
  "foldl (\<lambda>st sec. foldl f st (episodes sec)) a secs = foldl f a (all_episodes secs)"
  by (induction secs arbitrary: a) (simp_all add: all_episodes_def)

lemma select_episodes_fold:
  "foldl (\<lambda>st e. select_episode L e st) (sel, out) es =
     (sel @ map video_info [e \<leftarrow> es. episode_bvid e \<noteq> [] \<and> JStr (episode_bvid e) \<notin> set L],
      out @ map (\<lambda>e. Skipped (episode_bvid e)) [e \<leftarrow> es. JStr (episode_bvid e) \<in> set L])"
  by (induction es arbitrary: sel out) (auto simp: select_episode_def py_in_JStr Let_def)

lemma select_all_eq:
  "select_all L secs =
     (map video_info [e \<leftarrow> all_episodes secs. episode_bvid e \<noteq> [] \<and> JStr (episode_bvid e) \<notin> set L],
      map (\<lambda>e. Skipped (episode_bvid e)) [e \<leftarrow> all_episodes secs. JStr (episode_bvid e) \<in> set L])"
  unfolding select_all_def foldl_sections by (simp add: select_episodes_fold)

lemma collect_fold:
  "foldl (\<lambda>all_videos e. if episode_bvid e \<noteq> [] then all_videos @ [video_info e] else all_videos) acc es
     = acc @ map video_info [e \<leftarrow> es. episode_bvid e \<noteq> []]"
  by (induction es arbitrary: acc) auto

lemma collect_videos_eq:
  "collect_videos secs = map video_info [e \<leftarrow> all_episodes secs. episode_bvid e \<noteq> []]"
  unfolding collect_videos_def foldl_sections by (simp add: collect_fold)

lemma load_progress_cases:
  obtains s w' where "load_progress cid w = Inr (s, w')"
  using load_progress_returns[of cid w] by blast

lemma load_progress_split:
  "load_progress (get_or (page_bvid data) []) w = Inr (loaded_ledger data w, after_load data w)"
proof -
  obtain s w' where "load_progress (get_or (page_bvid data) []) w = Inr (s, w')"
    by (rule load_progress_cases)
  then show ?thesis by (simp add: loaded_ledger_def after_load_def returned_def world_of_def)
qed

lemma stdin_after_load: "stdin (after_load data w) = stdin w"
  by (auto simp: after_load_def world_of_def load_progress_def Let_def emit_def split: sum.splits)

lemma stdin_show_collection: "stdin (show_collection data w) = stdin w"
  by (simp add: show_collection_def emit_all_def Let_def)

lemma input_Cons: "stdin w = l # ls \<Longrightarrow> input p w = Inr (l, (emit p w)\<lparr>stdin := ls\<rparr>)"
  by (simp add: input_def emit_def Let_def)

lemma input_Nil: "stdin w = [] \<Longrightarrow> input p w = Inl (EOFError, emit p w)"
  by (simp add: input_def emit_def Let_def)

text \<open>
  C1 (as amended). For choice \<open>'1'\<close>, \<open>process_collection\<close> returns the episodes that have a
  bvid, across all sections in section order then episode order, leaving out exactly
  those whose bvid is in the loaded ledger; after the listing and the prompt the console
  holds one notice for each episode whose bvid is in the ledger, in order.
\<close>

theorem all_mode_selection:
  assumes "stdin w = ''1'' # rest"
  shows "\<exists>w'. process_collection py_int data w =
            Inr (map video_info [e \<leftarrow> all_episodes (sections data).
                    episode_bvid e \<noteq> [] \<and> JStr (episode_bvid e) \<notin> set (loaded_ledger data w)], w')
          \<and> console w' = console (show_collection data (after_load data w)) @ [AskChoice]
               @ map (\<lambda>e. Skipped (episode_bvid e))
                   [e \<leftarrow> all_episodes (sections data).
                      JStr (episode_bvid e) \<in> set (loaded_ledger data w)]"
proof -
  have "stdin (show_collection data (after_load data w)) = ''1'' # rest"
    using assms by (simp add: stdin_show_collection stdin_after_load)
  then show ?thesis
    by (simp add: process_collection_def Let_def load_progress_split input_Cons select_all_eq
          emit_all_def emit_def)
qed





lemma select_range_invalid:
  "\<not> (1 \<le> s \<and> s \<le> e \<and> e \<le> int (length (collect_videos secs))) \<Longrightarrow>
   select_range L secs s e = Inr ([], [BadRange (length (collect_videos secs))])"
  unfolding select_range_def Let_def by (rule if_not_P)

lemma length_collect_videos: "length (collect_videos secs) \<le> length (all_episodes secs)"
  by (simp add: collect_videos_eq)

lemma range_prompt:
  assumes "stdin w = ''3'' # raw # rest"
  shows "process_collection py_int data w =
     (case parse_range py_int raw of
        None \<Rightarrow> Inr ([], emit BadFormat
                  ((emit AskLine (emit AskRange ((emit AskChoice (show_collection data (after_load data w)))\<lparr>stdin := raw # rest\<rparr>)))\<lparr>stdin := rest\<rparr>))
      | Some (s, e) \<Rightarrow>
          (case select_range (loaded_ledger data w) (sections data) s e of
             Inr (selected_videos, out) \<Rightarrow>
               Inr (selected_videos, emit_all out
                  ((emit AskLine (emit AskRange ((emit AskChoice (show_collection data (after_load data w)))\<lparr>stdin := raw # rest\<rparr>)))\<lparr>stdin := rest\<rparr>))
           | Inl (ex, selected_videos, out) \<Rightarrow>
               if ex = ValueError \<or> ex = IndexError
               then Inr (selected_videos, emit BadFormat (emit_all out
                  ((emit AskLine (emit AskRange ((emit AskChoice (show_collection data (after_load data w)))\<lparr>stdin := raw # rest\<rparr>)))\<lparr>stdin := rest\<rparr>)))
               else Inl (ex, emit_all out
                  ((emit AskLine (emit AskRange ((emit AskChoice (show_collection data (after_load data w)))\<lparr>stdin := raw # rest\<rparr>)))\<lparr>stdin := rest\<rparr>))))"
proof -
  have "stdin (show_collection data (after_load data w)) = ''3'' # raw # rest"
    using assms by (simp add: stdin_show_collection stdin_after_load)
  then show ?thesis
    by (simp add: process_collection_def Let_def load_progress_split input_Cons emit_def
          split: option.splits sum.splits prod.splits)
qed


text \<open>
  C3. For choice \<open>'3'\<close>, when the operator's line does not parse as two integers, or
  parses as \<open>(s, e)\<close> with \<open>s > e\<close>, \<open>e > N\<close> or \<open>s < 1\<close> (\<open>N\<close> the number of episodes, or the
  smaller number of episodes that have a bvid), \<open>process_collection\<close> returns: it does not
  raise. It returns the empty list and its last console line reports the error.
\<close>

theorem range_rejection:
  assumes "stdin w = ''3'' # raw # rest"
      and "parse_range py_int raw = None
           \<or> (\<exists>s e. parse_range py_int raw = Some (s, e)
                 \<and> (e < s \<or> int (length (all_episodes (sections data))) < e
                      \<or> int (length (collect_videos (sections data))) < e \<or> s < 1))"
  shows "\<exists>w'. process_collection py_int data w = Inr ([], w')
          \<and> console w' = range_console data w
               @ [if parse_range py_int raw = None then BadFormat
                  else BadRange (length (collect_videos (sections data)))]"
proof (cases "parse_range py_int raw")
  case None
  then show ?thesis
    by (simp add: range_prompt[OF assms(1)] emit_def range_console_def)
next
  case (Some p)
  obtain s e where p: "p = (s, e)" by (cases p)
  have "\<not> (1 \<le> s \<and> s \<le> e \<and> e \<le> int (length (collect_videos (sections data))))"
    using assms(2) Some p length_collect_videos[of "sections data"] by auto
  from select_range_invalid[OF this] show ?thesis
    using Some p
    by (simp add: range_prompt[OF assms(1)] emit_all_def emit_def range_console_def)
qed

subsection \<open>Instances\<close>

text \<open>
  The collection of six episodes with the second one in the ledger: choice \<open>'1'\<close> returns
  the other five and reports the second as skipped.
\<close>

theorem all_mode_selection_witness:
  "returned (process_collection ascii_int course (resumed\<lparr>stdin := [''1'']\<rparr>)) =
     Some [\<lparr>title = ''One'', bvid = ''BV1a'', aid = Some 101\<rparr>,
           \<lparr>title = ''Three'', bvid = ''BV3c'', aid = Some 103\<rparr>,
           \<lparr>title = ''Four'', bvid = ''BV4d'', aid = Some 104\<rparr>,
           \<lparr>title = ''Five'', bvid = ''BV5e'', aid = Some 105\<rparr>,
           \<lparr>title = ''Six'', bvid = ''BV6f'', aid = Some 106\<rparr>]
   \<and> last (console (world_of (process_collection ascii_int course (resumed\<lparr>stdin := [''1'']\<rparr>))))
       = Skipped ''BV2b''"
proof -
  let ?w = "resumed\<lparr>stdin := [''1'']\<rparr>"
  have h: "stdin ?w = ''1'' # []" by simp
  obtain w' where
    r: "process_collection ascii_int course ?w =
          Inr (map video_info [e \<leftarrow> all_episodes (sections course).
                 episode_bvid e \<noteq> [] \<and> JStr (episode_bvid e) \<notin> set (loaded_ledger course ?w)], w')"
    and c: "console w' = console (show_collection course (after_load course ?w)) @ [AskChoice]
               @ map (\<lambda>e. Skipped (episode_bvid e))
                   [e \<leftarrow> all_episodes (sections course).
                      JStr (episode_bvid e) \<in> set (loaded_ledger course ?w)]"
    using all_mode_selection[OF h, of ascii_int course] by blast
  have l: "loaded_ledger course ?w = [JStr ''BV2b'']" by code_simp
  have x: "map video_info [e \<leftarrow> all_episodes (sections course).
                 episode_bvid e \<noteq> [] \<and> JStr (episode_bvid e) \<notin> set [JStr ''BV2b'']]
     = [\<lparr>title = ''One'', bvid = ''BV1a'', aid = Some 101\<rparr>,
           \<lparr>title = ''Three'', bvid = ''BV3c'', aid = Some 103\<rparr>,
           \<lparr>title = ''Four'', bvid = ''BV4d'', aid = Some 104\<rparr>,
           \<lparr>title = ''Five'', bvid = ''BV5e'', aid = Some 105\<rparr>,
           \<lparr>title = ''Six'', bvid = ''BV6f'', aid = Some 106\<rparr>]" by code_simp
  have y: "map (\<lambda>e. Skipped (episode_bvid e))
                   [e \<leftarrow> all_episodes (sections course).
                      JStr (episode_bvid e) \<in> set [JStr ''BV2b'']] = [Skipped ''BV2b'']" by code_simp
  show ?thesis
    using r[unfolded l x] c[unfolded l y] by (simp add: returned_def world_of_def)
qed

text \<open>
  An episode with no bvid is not in the (empty) ledger, and is not returned: choice \<open>'1'\<close>
  does not exclude exactly the episodes of the ledger.
\<close>

theorem all_mode_counterexample:
  "returned (process_collection ascii_int gap_data (no_files\<lparr>stdin := [''1'']\<rparr>))
     = Some [\<lparr>title = ''Basics - part one'', bvid = ''BV2b'', aid = Some 102\<rparr>]
   \<and> loaded_ledger gap_data (no_files\<lparr>stdin := [''1'']\<rparr>) = []
   \<and> returned (process_collection ascii_int gap_data (no_files\<lparr>stdin := [''1'']\<rparr>))
     \<noteq> Some (map video_info [e \<leftarrow> all_episodes (sections gap_data).
                 JStr (episode_bvid e) \<notin> set (loaded_ledger gap_data (no_files\<lparr>stdin := [''1'']\<rparr>))])"
  by code_simp



text \<open>The range \<open>4,10\<close> and a line that is no pair of integers both return the empty list.\<close>

theorem range_rejection_witness:
  "returned (process_collection ascii_int course (resumed\<lparr>stdin := [''3'', ''4,10'']\<rparr>)) = Some []
   \<and> last (console (world_of (process_collection ascii_int course (resumed\<lparr>stdin := [''3'', ''4,10'']\<rparr>))))
       = BadRange 6
   \<and> returned (process_collection ascii_int course (resumed\<lparr>stdin := [''3'', ''one to three'']\<rparr>)) = Some []
   \<and> last (console (world_of (process_collection ascii_int course (resumed\<lparr>stdin := [''3'', ''one to three'']\<rparr>))))
       = BadFormat"
proof -
  let ?w = "resumed\<lparr>stdin := [''3'', ''4,10'']\<rparr>"
  let ?u = "resumed\<lparr>stdin := [''3'', ''one to three'']\<rparr>"
  have h: "stdin ?w = ''3'' # ''4,10'' # []" by simp
  have p: "parse_range ascii_int ''4,10'' = Some (4, 10)" by code_simp
  have n: "int (length (all_episodes (sections course))) < 10" by code_simp
  have m: "length (collect_videos (sections course)) = 6" by code_simp
  have a: "parse_range ascii_int ''4,10'' = None
           \<or> (\<exists>s e. parse_range ascii_int ''4,10'' = Some (s, e)
                 \<and> (e < s \<or> int (length (all_episodes (sections course))) < e
                      \<or> int (length (collect_videos (sections course))) < e \<or> s < 1))"
    using p n by blast
  have h': "stdin ?u = ''3'' # ''one to three'' # []" by simp
  have p': "parse_range ascii_int ''one to three'' = None" by code_simp
  have b: "parse_range ascii_int ''one to three'' = None
           \<or> (\<exists>s e. parse_range ascii_int ''one to three'' = Some (s, e)
                 \<and> (e < s \<or> int (length (all_episodes (sections course))) < e
                      \<or> int (length (collect_videos (sections course))) < e \<or> s < 1))"
    using p' by blast
  from range_rejection[OF h a, unfolded p m] range_rejection[OF h' b, unfolded p']
  show ?thesis
    by (auto simp: returned_def world_of_def)
qed

section \<open>Selection by position or bvid\<close>

lemma assignments_append:
  "assignments index (vs @ us) = assignments index vs @ assignments (index + length vs) us"
  by (induction vs arbitrary: index) simp_all

lemma map_episodes_fold:
  "foldl (\<lambda>st e. map_episode e st) (m, index) es =
     (foldl (\<lambda>m kv. m(fst kv \<mapsto> snd kv)) m
        (assignments index (map video_info [e \<leftarrow> es. episode_bvid e \<noteq> []])),
      index + length [e \<leftarrow> es. episode_bvid e \<noteq> []])"
  by (induction es arbitrary: m index) (simp_all add: map_episode_def Let_def video_info_def)

lemma build_video_map_eq:
  "build_video_map secs =
     foldl (\<lambda>m kv. m(fst kv \<mapsto> snd kv)) Map.empty (assignments 1 (collect_videos secs))"
  unfolding build_video_map_def foldl_sections
  by (simp add: map_episodes_fold collect_videos_eq)

lemma foldl_assign_last:
  "foldl (\<lambda>m kv. m(fst kv \<mapsto> snd kv)) m kvs k =
     (if assigned kvs k = [] then m k else Some (last (assigned kvs k)))"
  by (induction kvs arbitrary: m) (auto simp: assigned_def)


lemma assignments_nth:
  "i < length vs \<Longrightarrow> (str_nat (index + i), vs ! i) \<in> set (assignments index vs)
      \<and> (bvid (vs ! i), vs ! i) \<in> set (assignments index vs)"
proof (induction vs arbitrary: index i)
  case Nil then show ?case by simp
next
  case (Cons v vs)
  show ?case
  proof (cases i)
    case 0 then show ?thesis by simp
  next
    case (Suc j)
    with Cons.prems have "j < length vs" by simp
    from Cons.IH[OF this, of "index + 1"] Suc show ?thesis by simp
  qed
qed



lemma select_by_ids_picked: "select_by_ids m toks = picked m toks"
proof -
  have "foldl (\<lambda>selected_videos selection.
              case m selection of None \<Rightarrow> selected_videos | Some v \<Rightarrow> selected_videos @ [v]) acc toks
        = acc @ picked m toks" for acc
    by (induction toks arbitrary: acc) (auto simp: picked_def split: option.splits)
  from this[of "[]"] show ?thesis by (simp add: select_by_ids_def)
qed

lemma by_ids_prompt:
  assumes "stdin w = ''2'' # raw # rest"
  shows "process_collection py_int data w =
     Inr (select_by_ids (build_video_map (sections data)) (tokens raw),
          (emit AskLine (emit AskIds ((emit AskChoice (show_collection data (after_load data w)))\<lparr>stdin := raw # rest\<rparr>)))\<lparr>stdin := rest\<rparr>)"
proof -
  have "stdin (show_collection data (after_load data w)) = ''2'' # raw # rest"
    using assms by (simp add: stdin_show_collection stdin_after_load)
  then show ?thesis
    by (simp add: process_collection_def Let_def load_progress_split input_Cons emit_def)
qed





lemma assigned_mem: "(k, v) \<in> set kvs \<Longrightarrow> v \<in> set (assigned kvs k)"
  by (force simp: assigned_def)

lemma build_video_map_last:
  "build_video_map secs k =
     (if assigned (assignments 1 (collect_videos secs)) k = [] then None
      else Some (last (assigned (assignments 1 (collect_videos secs)) k)))"
  by (simp add: build_video_map_eq foldl_assign_last)

lemma picked_last_assigned:
  "picked (build_video_map secs) toks = last_assigned (assignments 1 (collect_videos secs)) toks"
  by (induction toks) (simp_all add: picked_def last_assigned_def build_video_map_last)

lemma by_ids_returned:
  assumes "stdin w = ''2'' # raw # rest"
  shows "\<exists>w'. process_collection py_int data w
            = Inr (last_assigned (assignments 1 (collect_videos (sections data))) (tokens raw), w')"
  by (simp add: by_ids_prompt[OF assms] select_by_ids_picked picked_last_assigned)

text \<open>
  C9. \<open>video_map\<close> is built by successive assignment, so a key holds the entry assigned to
  it last. With choice \<open>2\<close>, \<open>process_collection\<close> returns, for each token of the line in
  order, the entry assigned last under that token, and nothing for a token that is no key.
  When the bvid of one episode is the position string of another, both entries were
  assigned under that string, and a line with that one token returns the later one only.
  The position of an episode and its bvid therefore do not always select the same entry.
\<close>

theorem video_map_last_assignment:
  "(stdin w = ''2'' # raw # rest \<longrightarrow>
      (\<exists>w'. process_collection py_int data w
              = Inr (last_assigned (assignments 1 (collect_videos (sections data))) (tokens raw), w')))
   \<and> (stdin w = ''2'' # raw # rest \<and> tokens raw = [str_nat (Suc i)]
        \<and> i < length (collect_videos (sections data)) \<and> j < length (collect_videos (sections data))
        \<and> bvid (collect_videos (sections data) ! j) = str_nat (Suc i)
      \<longrightarrow> collect_videos (sections data) ! i
            \<in> set (assigned (assignments 1 (collect_videos (sections data))) (str_nat (Suc i)))
        \<and> collect_videos (sections data) ! j
            \<in> set (assigned (assignments 1 (collect_videos (sections data))) (str_nat (Suc i)))
        \<and> returned (process_collection py_int data w)
            = Some [last (assigned (assignments 1 (collect_videos (sections data))) (str_nat (Suc i)))])
   \<and> build_video_map (sections data) k =
        (if assigned (assignments 1 (collect_videos (sections data))) k = [] then None
         else Some (last (assigned (assignments 1 (collect_videos (sections data))) k)))
   \<and> \<not> (\<forall>data' n w1 w2.
            n < length (collect_videos (sections data'))
            \<and> stdin w1 = [''2'', str_nat (Suc n)]
            \<and> stdin w2 = [''2'', bvid (collect_videos (sections data') ! n)]
          \<longrightarrow> returned (process_collection py_int data' w1)
                = returned (process_collection py_int data' w2))"
proof (intro conjI impI)
  let ?vs = "collect_videos (sections data)"
  let ?A = "assignments 1 ?vs"
  show "build_video_map (sections data) k =
        (if assigned ?A k = [] then None else Some (last (assigned ?A k)))"
    by (rule build_video_map_last)
  {
    assume "stdin w = ''2'' # raw # rest"
    then show "\<exists>w'. process_collection py_int data w = Inr (last_assigned ?A (tokens raw), w')"
      by (rule by_ids_returned)
  }
  assume a: "stdin w = ''2'' # raw # rest \<and> tokens raw = [str_nat (Suc i)]
        \<and> i < length ?vs \<and> j < length ?vs \<and> bvid (?vs ! j) = str_nat (Suc i)"
  from a assignments_nth[of i ?vs 1]
  show i: "?vs ! i \<in> set (assigned ?A (str_nat (Suc i)))"
    by (auto intro: assigned_mem)
  from a assignments_nth[of j ?vs 1]
  show "?vs ! j \<in> set (assigned ?A (str_nat (Suc i)))"
    by (auto intro: assigned_mem)
  from i have ne: "assigned ?A (str_nat (Suc i)) \<noteq> []" by auto
  from a obtain w' where
    "process_collection py_int data w = Inr (last_assigned ?A (tokens raw), w')"
    using by_ids_returned[of w raw rest py_int data] by blast
  then show "returned (process_collection py_int data w)
            = Some [last (assigned ?A (str_nat (Suc i)))]"
    using a ne by (simp add: returned_def last_assigned_def)
next
  let ?w1 = "no_files\<lparr>stdin := [''2'', ''1'']\<rparr>"
  let ?w2 = "no_files\<lparr>stdin := [''2'', ''BVx'']\<rparr>"
  have c: "collect_videos (sections colliding) =
             [\<lparr>title = ''One'', bvid = ''BVx'', aid = Some 101\<rparr>,
              \<lparr>title = ''Two'', bvid = ''1'', aid = Some 102\<rparr>]" by code_simp
  have s: "str_nat (Suc 0) = ''1''" by code_simp
  have x1: "last_assigned (assignments 1 (collect_videos (sections colliding))) (tokens ''1'')
              = [\<lparr>title = ''Two'', bvid = ''1'', aid = Some 102\<rparr>]" by code_simp
  have x2: "last_assigned (assignments 1 (collect_videos (sections colliding))) (tokens ''BVx'')
              = [\<lparr>title = ''One'', bvid = ''BVx'', aid = Some 101\<rparr>]" by code_simp
  have r1: "returned (process_collection py_int colliding ?w1)
              = Some [\<lparr>title = ''Two'', bvid = ''1'', aid = Some 102\<rparr>]"
  proof -
    have "stdin ?w1 = ''2'' # ''1'' # []" by simp
    from by_ids_returned[OF this, of py_int colliding] obtain w' where
      "process_collection py_int colliding ?w1
         = Inr (last_assigned (assignments 1 (collect_videos (sections colliding))) (tokens ''1''), w')"
      by blast
    from this[unfolded x1] show ?thesis by (simp add: returned_def)
  qed
  have r2: "returned (process_collection py_int colliding ?w2)
              = Some [\<lparr>title = ''One'', bvid = ''BVx'', aid = Some 101\<rparr>]"
  proof -
    have "stdin ?w2 = ''2'' # ''BVx'' # []" by simp
    from by_ids_returned[OF this, of py_int colliding] obtain w' where
      "process_collection py_int colliding ?w2
         = Inr (last_assigned (assignments 1 (collect_videos (sections colliding))) (tokens ''BVx''), w')"
      by blast
    from this[unfolded x2] show ?thesis by (simp add: returned_def)
  qed
  have "0 < length (collect_videos (sections colliding))
        \<and> stdin ?w1 = [''2'', str_nat (Suc 0)]
        \<and> stdin ?w2 = [''2'', bvid (collect_videos (sections colliding) ! 0)]"
    by (simp add: c s)
  moreover have "returned (process_collection py_int colliding ?w1)
                   \<noteq> returned (process_collection py_int colliding ?w2)"
    by (simp add: r1 r2)
  ultimately show "\<not> (\<forall>data' n w1 w2.
            n < length (collect_videos (sections data'))
            \<and> stdin w1 = [''2'', str_nat (Suc n)]
            \<and> stdin w2 = [''2'', bvid (collect_videos (sections data') ! n)]
          \<longrightarrow> returned (process_collection py_int data' w1)
                = returned (process_collection py_int data' w2))"
    by blast
qed




text \<open>In the colliding collection two entries are assigned under \<open>1\<close>; a line with the
  token \<open>1\<close> returns the second alone.\<close>

theorem video_map_last_assignment_witness:
  "assigned (assignments 1 (collect_videos (sections colliding))) ''1''
     = [\<lparr>title = ''One'', bvid = ''BVx'', aid = Some 101\<rparr>,
        \<lparr>title = ''Two'', bvid = ''1'', aid = Some 102\<rparr>]
   \<and> tokens '' 1 '' = [''1'']
   \<and> returned (process_collection ascii_int colliding (resumed\<lparr>stdin := [''2'', '' 1 '']\<rparr>))
       = Some [\<lparr>title = ''Two'', bvid = ''1'', aid = Some 102\<rparr>]"
proof -
  let ?w = "resumed\<lparr>stdin := [''2'', '' 1 '']\<rparr>"
  have s: "str_nat (Suc 0) = ''1''" by code_simp
  have t: "tokens '' 1 '' = [''1'']" by code_simp
  have a: "stdin ?w = ''2'' # '' 1 '' # [] \<and> tokens '' 1 '' = [str_nat (Suc 0)]
        \<and> 0 < length (collect_videos (sections colliding))
        \<and> 1 < length (collect_videos (sections colliding))
        \<and> bvid (collect_videos (sections colliding) ! 1) = str_nat (Suc 0)"
  proof -
    have "0 < length (collect_videos (sections colliding))
        \<and> 1 < length (collect_videos (sections colliding))
        \<and> bvid (collect_videos (sections colliding) ! 1) = str_nat (Suc 0)" by code_simp
    then show ?thesis by (simp add: t s)
  qed
  have x: "assigned (assignments 1 (collect_videos (sections colliding))) ''1''
     = [\<lparr>title = ''One'', bvid = ''BVx'', aid = Some 101\<rparr>,
        \<lparr>title = ''Two'', bvid = ''1'', aid = Some 102\<rparr>]" by code_simp
  from video_map_last_assignment[of ?w "'' 1 ''" "[]" ascii_int colliding 0 1] a
  have f: "returned (process_collection ascii_int colliding ?w)
            = Some [last (assigned (assignments 1 (collect_videos (sections colliding))) (str_nat (Suc 0)))]"
    by blast
  have l: "last [\<lparr>title = ''One'', bvid = ''BVx'', aid = Some 101\<rparr>,
        \<lparr>title = ''Two'', bvid = ''1'', aid = Some 102\<rparr>] = \<lparr>title = ''Two'', bvid = ''1'', aid = Some 102\<rparr>"
    by simp
  show ?thesis using f[unfolded s x l] x t by blast
qed

section \<open>Selection is a function of its inputs\<close>

lemma same_store_refl: "same_store w w"
  by (simp add: same_store_def)

lemma same_store_trans: "same_store a b \<Longrightarrow> same_store b c \<Longrightarrow> same_store a c"
  by (simp add: same_store_def)

lemma same_store_emit: "same_store w (emit l w)"
  by (simp add: same_store_def emit_def)

lemma same_store_emit_all: "same_store w (emit_all ls w)"
  by (simp add: same_store_def emit_all_def)

lemma same_store_input: "same_store w (world_of (input p w))"
  by (simp add: same_store_def input_def emit_def world_of_def Let_def split: list.splits)

lemma same_store_after_load: "same_store w (after_load data w)"
  by (auto simp: same_store_def after_load_def world_of_def load_progress_def Let_def emit_def
           split: sum.splits)

lemma same_store_show_collection: "same_store w (show_collection data w)"
  by (simp add: same_store_def show_collection_def emit_all_def Let_def)

lemma same_store_stdin: "same_store w w' \<Longrightarrow> same_store w (w'\<lparr>stdin := l\<rparr>)"
  by (simp add: same_store_def)

lemma py_in_set: "set L = set L' \<Longrightarrow> py_in x L = py_in x L'"
  by (simp add: py_in_def)

lemma range_loop_set:
  "set L = set L' \<Longrightarrow> range_loop L all_videos idxs st = range_loop L' all_videos idxs st"
  by (induction idxs arbitrary: st) (simp_all add: py_in_set[of L L'] split: sum.splits)

lemma select_range_set:
  "set L = set L' \<Longrightarrow> select_range L secs s e = select_range L' secs s e"
  by (simp add: select_range_def Let_def range_loop_set[of L L'])

lemma select_all_set: "set L = set L' \<Longrightarrow> select_all L secs = select_all L' secs"
  by (simp add: select_all_eq)

lemma process_collection_after_load:
  "process_collection py_int data w =
     (case input AskChoice (show_collection data (after_load data w)) of
        Inl x \<Rightarrow> Inl x
      | Inr (choice, w2) \<Rightarrow>
          if choice = ''1'' then
            (case select_all (loaded_ledger data w) (sections data) of
               (selected_videos, out) \<Rightarrow> Inr (selected_videos, emit_all out w2))
          else if choice = ''2'' then
            (case input AskLine (emit AskIds w2) of
               Inl x \<Rightarrow> Inl x
             | Inr (raw, w3) \<Rightarrow>
                 Inr (select_by_ids (build_video_map (sections data)) (tokens raw), w3))
          else if choice = ''3'' then
            (case input AskLine (emit AskRange w2) of
               Inl x \<Rightarrow> Inl x
             | Inr (raw, w3) \<Rightarrow>
                 (case parse_range py_int raw of
                    None \<Rightarrow> Inr ([], emit BadFormat w3)
                  | Some (start, end) \<Rightarrow>
                      (case select_range (loaded_ledger data w) (sections data) start end of
                         Inr (selected_videos, out) \<Rightarrow>
                           Inr (selected_videos, emit_all out w3)
                       | Inl (e, selected_videos, out) \<Rightarrow>
                           if e = ValueError \<or> e = IndexError
                           then Inr (selected_videos, emit BadFormat (emit_all out w3))
                           else Inl (e, emit_all out w3))))
          else Inr ([], w2))"
  by (simp add: process_collection_def Let_def load_progress_split)


lemma input_cases:
  "input p w = (case stdin w of [] \<Rightarrow> Inl (EOFError, emit p w)
                | l # ls \<Rightarrow> Inr (l, (emit p w)\<lparr>stdin := ls\<rparr>))"
  by (simp add: input_def emit_def Let_def split: list.splits)

lemma stdin_emit: "stdin (emit l w) = stdin w"
  by (simp add: emit_def)

lemma outcome_process_collection:
  "outcome (process_collection py_int data w) =
     (case stdin w of
        [] \<Rightarrow> Inl EOFError
      | choice # rest \<Rightarrow>
          if choice = ''1'' then Inr (fst (select_all (loaded_ledger data w) (sections data)))
          else if choice = ''2'' then
            (case rest of
               [] \<Rightarrow> Inl EOFError
             | raw # _ \<Rightarrow> Inr (select_by_ids (build_video_map (sections data)) (tokens raw)))
          else if choice = ''3'' then
            (case rest of
               [] \<Rightarrow> Inl EOFError
             | raw # _ \<Rightarrow>
                 (case parse_range py_int raw of
                    None \<Rightarrow> Inr []
                  | Some (s, e) \<Rightarrow>
                      (case select_range (loaded_ledger data w) (sections data) s e of
                         Inr (selected_videos, _) \<Rightarrow> Inr selected_videos
                       | Inl (ex, selected_videos, _) \<Rightarrow>
                           if ex = ValueError \<or> ex = IndexError then Inr selected_videos
                           else Inl ex)))
          else Inr [])"
  by (simp add: process_collection_after_load input_cases stdin_show_collection stdin_after_load
        stdin_emit outcome_def
      split: list.splits option.splits sum.splits prod.splits)

lemma same_store_process_collection:
  "same_store w (world_of (process_collection py_int data w))"
proof -
  have a: "same_store w (show_collection data (after_load data w))"
    using same_store_after_load same_store_show_collection same_store_trans by blast
  have e: "same_store w v \<Longrightarrow> same_store w (emit l v)" for v l
    using same_store_emit same_store_trans by blast
  have ea: "same_store w v \<Longrightarrow> same_store w (emit_all ls v)" for v ls
    using same_store_emit_all same_store_trans by blast
  have s: "same_store w v \<Longrightarrow> same_store w (v\<lparr>stdin := l\<rparr>)" for v l
    by (simp add: same_store_def)
  show ?thesis
    by (simp add: process_collection_after_load input_cases world_of_def a e ea s
        split: list.splits option.splits sum.splits prod.splits)
qed

text \<open>
  C8. Two runs of \<open>process_collection\<close> on the same metadata, with ledgers holding the
  same elements and with the same operator input, return the same list (or raise the
  same exception), whatever else the two worlds hold. A run changes no file, no
  permission and calls no method that is recorded: the console and the consumed input
  apart, the world is as before.
\<close>

theorem selection_deterministic:
  assumes "set (loaded_ledger data w) = set (loaded_ledger data w')"
      and "stdin w = stdin w'"
  shows "outcome (process_collection py_int data w) = outcome (process_collection py_int data w')
         \<and> files (world_of (process_collection py_int data w)) = files w
         \<and> unopenable (world_of (process_collection py_int data w)) = unopenable w
         \<and> calls (world_of (process_collection py_int data w)) = calls w"
proof -
  have "outcome (process_collection py_int data w) = outcome (process_collection py_int data w')"
    unfolding outcome_process_collection assms(2)
      select_all_set[OF assms(1)] select_range_set[OF assms(1)]
    by (rule refl)
  then show ?thesis
    using same_store_process_collection[of w py_int data] by (simp add: same_store_def)
qed

text \<open>
  Two worlds whose ledgers list the same two episodes in different orders: the two runs
  return the same list, and the files are untouched.
\<close>

theorem selection_deterministic_witness:
  "loaded_ledger course (two_done\<lparr>stdin := [''1'']\<rparr>) = [JStr ''BV2b'', JStr ''BV5e'']
   \<and> loaded_ledger course (two_done_reordered\<lparr>stdin := [''1'']\<rparr>) = [JStr ''BV5e'', JStr ''BV2b'']
   \<and> outcome (process_collection ascii_int course (two_done\<lparr>stdin := [''1'']\<rparr>))
       = outcome (process_collection ascii_int course (two_done_reordered\<lparr>stdin := [''1'']\<rparr>))
   \<and> files (world_of (process_collection ascii_int course (two_done\<lparr>stdin := [''1'']\<rparr>)))
       = files two_done"
proof -
  let ?w = "two_done\<lparr>stdin := [''1'']\<rparr>"
  let ?u = "two_done_reordered\<lparr>stdin := [''1'']\<rparr>"
  have a: "loaded_ledger course ?w = [JStr ''BV2b'', JStr ''BV5e'']" by code_simp
  have b: "loaded_ledger course ?u = [JStr ''BV5e'', JStr ''BV2b'']" by code_simp
  have s: "set (loaded_ledger course ?w) = set (loaded_ledger course ?u)"
    unfolding a b by auto
  have i: "stdin ?w = stdin ?u" by (simp add: two_done_def two_done_reordered_def no_files_def)
  from selection_deterministic[OF s i, of ascii_int] a b
  show ?thesis by simp
qed

section \<open>The loop of the pipeline\<close>

lemma saves_append: "saves (xs @ ys) = saves xs @ saves ys"
  by (induction xs rule: saves.induct) simp_all

lemma foldl_upd_dom:
  "fs p = Some y \<Longrightarrow> \<exists>z. foldl (\<lambda>fs q. fs(q \<mapsto> Other)) fs qs p = Some z"
proof (induction qs arbitrary: fs y)
  case Nil
  then show ?case by simp
next
  case (Cons q qs)
  have "\<exists>y'. (fs(q \<mapsto> Other)) p = Some y'" using Cons.prems by simp
  then obtain y' where "(fs(q \<mapsto> Other)) p = Some y'" ..
  from Cons.IH[of "fs(q \<mapsto> Other)" y', OF this] show ?case by simp
qed

lemma download_video_result:
  assumes "download_video env i v w = r"
  shows "calls (world_of r) = calls w @ [Call_download_video v]"
    and "grows w (world_of r)"
  using assms
  by (auto simp: download_video_def Let_def record_call_def world_of_def grows_def path_exists_def
           split: fetch.splits if_splits)

lemma extract_audio_result:
  assumes "extract_audio env i p t b w = r"
  shows "calls (world_of r) = calls w @ [Call_extract_audio p t b]"
    and "grows w (world_of r)"
  using assms
  by (auto simp: extract_audio_def Let_def record_call_def world_of_def grows_def path_exists_def
           split: option.splits if_splits)

lemma split_audio_result:
  assumes "split_audio env i p t b w = r"
  shows "calls (world_of r) = calls w @ [Call_split_audio p t b]"
    and "grows w (world_of r)"
  using assms
  by (auto simp: split_audio_def Let_def record_call_def world_of_def grows_def path_exists_def
           foldl_upd_dom split: sum.splits if_splits)

lemma transcribe_audio_result:
  assumes "transcribe_audio env i ps t b w = r"
  shows "calls (world_of r) = calls w @ [Call_transcribe_audio ps t b]"
    and "grows w (world_of r)"
  using assms
  by (auto simp: transcribe_audio_def Let_def record_call_def world_of_def grows_def path_exists_def
           split: option.splits if_splits)

lemma save_progress_result:
  assumes "save_progress c s w = r"
  shows "calls (world_of r) = calls w @ [Call_save_progress c s]"
    and "grows w (world_of r)"
  using assms
  by (auto simp: save_progress_def Let_def record_call_def world_of_def grows_def path_exists_def
           open_write_def json_dump_def emit_def split: sum.splits if_splits)


lemma path_exists_emit: "path_exists p (emit l w) = path_exists p w"
  by (simp add: path_exists_def emit_def)

lemma loop_body_skip:
  "path_exists (transcript_path v) w \<Longrightarrow>
   loop_body env cid i v dl w =
     Inr (dl, emit (TranscriptExists (transcript_path v)) (emit (Processing (title v)) w))"
  by (simp add: loop_body_def Let_def transcript_path_def path_exists_emit)

lemma grows_refl: "grows w w"
  by (simp add: grows_def)

lemma grows_trans: "grows a b \<Longrightarrow> grows b c \<Longrightarrow> grows a c"
  by (simp add: grows_def)

lemma grows_emit: "grows w (emit l w)"
  by (simp add: grows_def path_exists_emit)

lemma calls_emit: "calls (emit l w) = calls w"
  by (simp add: emit_def)

lemma loop_body_facts:
  "\<exists>cs. calls (world_of (loop_body env cid i v dl w)) = calls w @ cs
      \<and> grows w (world_of (loop_body env cid i v dl w))
      \<and> (path_exists (transcript_path v) w \<longrightarrow> cs = [])
      \<and> pass_calls v cid dl cs
      \<and> (\<forall>dl' w'. loop_body env cid i v dl w = Inr (dl', w') \<longrightarrow>
            (if saves cs = [] then dl' = dl else dl' = set_add (JStr (bvid v)) dl))"
proof (cases "path_exists (transcript_path v) w")
  case True
  show ?thesis
    by (rule exI[of _ "[]"])
       (simp add: loop_body_skip[OF True] world_of_def calls_emit pass_calls_def grows_def
          path_exists_emit)
next
  case False
  define w0 where "w0 = emit (Processing (title v)) w"
  have w0: "calls w0 = calls w" "grows w w0"
    by (simp_all add: w0_def calls_emit grows_emit)
  have body: "loop_body env cid i v dl w =
      (case download_video env i v w0 of
              Inl x \<Rightarrow> Inl x
            | Inr (None, w1) \<Rightarrow> Inr (dl, emit DownloadFailed w1)
            | Inr (Some video_path, w1) \<Rightarrow>
                (case extract_audio env i video_path (title v) (bvid v) w1 of
                   Inl x \<Rightarrow> Inl x
                 | Inr (audio_path, w2) \<Rightarrow>
                     (case split_audio env i audio_path (title v) (bvid v) w2 of
                        Inl x \<Rightarrow> Inl x
                      | Inr (audio_chunks, w3) \<Rightarrow>
                          (case transcribe_audio env i audio_chunks (title v) (bvid v) w3 of
                             Inl x \<Rightarrow> Inl x
                           | Inr (_, w4) \<Rightarrow>
                               if cid \<noteq> [] then
                                 (case save_progress cid (set_add (JStr (bvid v)) dl) w4 of
                                       Inl x \<Rightarrow> Inl x
                                     | Inr (_, w5) \<Rightarrow> Inr (set_add (JStr (bvid v)) dl, w5))
                               else Inr (dl, w4)))))"
    using False unfolding loop_body_def Let_def w0_def
    by (simp add: transcript_path_def path_exists_emit)
  let ?c1 = "Call_download_video v"
  have d: "calls (world_of (download_video env i v w0)) = calls w @ [?c1]"
          "grows w (world_of (download_video env i v w0))"
    using download_video_result[of env i v w0 _, OF refl] w0 grows_trans by auto
  show ?thesis
  proof (cases "download_video env i v w0")
    case (Inl x)
    then show ?thesis
      using d False
      by (intro exI[of _ "[?c1]"]) (auto simp: body pass_calls_def world_of_def)
  next
    case (Inr r1)
    obtain o1 w1 where r1: "r1 = (o1, w1)" by (cases r1)
    have w1: "calls w1 = calls w @ [?c1]" "grows w w1"
      using d Inr r1 by (simp_all add: world_of_def)
    show ?thesis
    proof (cases o1)
      case None
      then show ?thesis
        using w1 False Inr r1 grows_trans[OF w1(2) grows_emit]
        by (intro exI[of _ "[?c1]"]) (auto simp: body pass_calls_def world_of_def calls_emit)
    next
      case (Some video_path)
      let ?c2 = "Call_extract_audio video_path (title v) (bvid v)"
      have e: "calls (world_of (extract_audio env i video_path (title v) (bvid v) w1)) = calls w @ [?c1, ?c2]"
          "grows w (world_of (extract_audio env i video_path (title v) (bvid v) w1))"
        using extract_audio_result[of env i video_path "title v" "bvid v" w1 _, OF refl] w1 grows_trans
        by auto
      show ?thesis
      proof (cases "extract_audio env i video_path (title v) (bvid v) w1")
        case (Inl x)
        then show ?thesis
          using e False Inr r1 Some
          by (intro exI[of _ "[?c1, ?c2]"]) (auto simp: body pass_calls_def world_of_def)
      next
        case r2: (Inr r2)
        obtain audio_path w2 where r2': "r2 = (audio_path, w2)" by (cases r2)
        have w2: "calls w2 = calls w @ [?c1, ?c2]" "grows w w2"
          using e r2 r2' by (simp_all add: world_of_def)
        let ?c3 = "Call_split_audio audio_path (title v) (bvid v)"
        have s: "calls (world_of (split_audio env i audio_path (title v) (bvid v) w2)) = calls w @ [?c1, ?c2, ?c3]"
          "grows w (world_of (split_audio env i audio_path (title v) (bvid v) w2))"
          using split_audio_result[of env i audio_path "title v" "bvid v" w2 _, OF refl] w2 grows_trans
          by auto
        show ?thesis
        proof (cases "split_audio env i audio_path (title v) (bvid v) w2")
          case (Inl x)
          then show ?thesis
            using s False Inr r1 Some r2 r2'
            by (intro exI[of _ "[?c1, ?c2, ?c3]"]) (auto simp: body pass_calls_def world_of_def)
        next
          case r3: (Inr r3)
          obtain audio_chunks w3 where r3': "r3 = (audio_chunks, w3)" by (cases r3)
          have w3: "calls w3 = calls w @ [?c1, ?c2, ?c3]" "grows w w3"
            using s r3 r3' by (simp_all add: world_of_def)
          let ?c4 = "Call_transcribe_audio audio_chunks (title v) (bvid v)"
          have t: "calls (world_of (transcribe_audio env i audio_chunks (title v) (bvid v) w3)) = calls w @ [?c1, ?c2, ?c3, ?c4]"
            "grows w (world_of (transcribe_audio env i audio_chunks (title v) (bvid v) w3))"
            using transcribe_audio_result[of env i audio_chunks "title v" "bvid v" w3 _, OF refl] w3 grows_trans
            by auto
          show ?thesis
          proof (cases "transcribe_audio env i audio_chunks (title v) (bvid v) w3")
            case (Inl x)
            then show ?thesis
              using t False Inr r1 Some r2 r2' r3 r3'
              by (intro exI[of _ "[?c1, ?c2, ?c3, ?c4]"]) (auto simp: body pass_calls_def world_of_def)
          next
            case r4: (Inr r4)
            obtain output_path w4 where r4': "r4 = (output_path, w4)" by (cases r4)
            have w4: "calls w4 = calls w @ [?c1, ?c2, ?c3, ?c4]" "grows w w4"
              using t r4 r4' by (simp_all add: world_of_def)
            show ?thesis
            proof (cases "cid = []")
              case True
              have lb: "loop_body env cid i v dl w = Inr (dl, w4)"
                unfolding body using True Inr r1 Some r2 r2' r3 r3' r4 r4' by simp
              show ?thesis
                unfolding lb using w4 False
                by (intro exI[of _ "[?c1, ?c2, ?c3, ?c4]"]) (auto simp: pass_calls_def world_of_def)
            next
              case cid: False
              let ?added = "set_add (JStr (bvid v)) dl"
              let ?c5 = "Call_save_progress cid ?added"
              have p: "calls (world_of (save_progress cid ?added w4)) = calls w @ [?c1, ?c2, ?c3, ?c4, ?c5]"
                "grows w (world_of (save_progress cid ?added w4))"
                using save_progress_result[of cid ?added w4 _, OF refl] w4 grows_trans by auto
              have lb: "loop_body env cid i v dl w =
                  (case save_progress cid ?added w4 of
                     Inl x \<Rightarrow> Inl x
                   | Inr (_, w5) \<Rightarrow> Inr (?added, w5))"
                unfolding body using cid Inr r1 Some r2 r2' r3 r3' r4 r4' by simp
              have wo: "world_of (loop_body env cid i v dl w) = world_of (save_progress cid ?added w4)"
                by (simp add: lb world_of_def split: sum.splits prod.splits)
              show ?thesis
                unfolding wo using p False
                by (intro exI[of _ "[?c1, ?c2, ?c3, ?c4, ?c5]"])
                   (auto simp: lb pass_calls_def split: sum.splits)
            qed
          qed
        qed
      qed
    qed
  qed
qed


lemma about_same_path: "about u c \<Longrightarrow> about v c \<Longrightarrow> transcript_path u = transcript_path v"
  by (cases c) (simp_all add: transcript_path_def)

lemma set_set_add: "set (set_add x s) = set s \<or> set (set_add x s) = insert x (set s)"
  by (simp add: set_add_def)

lemma set_add_superset: "set s \<subseteq> set (set_add x s)"
  by (auto simp: set_add_def)

lemma set_add_elem: "y \<in> set (set_add x s) \<Longrightarrow> y \<in> set s \<or> y = x"
  by (auto simp: set_add_def split: if_splits)

lemma trace_ok_pass:
  assumes g: "grows w0 w"
      and e: "path_exists (transcript_path v) w \<longrightarrow> cs = []"
      and p: "pass_calls v cid dl cs"
  shows "trace_ok w0 cid (v # rest) dl cs"
proof -
  have nv: "cs \<noteq> [] \<Longrightarrow> \<not> path_exists (transcript_path v) w0"
    using g e by (auto simp: grows_def)
  have a: "\<forall>u. path_exists (transcript_path u) w0 \<longrightarrow> (\<forall>c\<in>set cs. \<not> about u c)"
  proof (intro allI impI ballI notI)
    fix u c assume u: "path_exists (transcript_path u) w0" and c: "c \<in> set cs" and ab: "about u c"
    from p c have "about v c \<or> c = Call_save_progress cid (set_add (JStr (bvid v)) dl)"
      by (simp add: pass_calls_def)
    with ab have "about v c" by auto
    with ab have "transcript_path u = transcript_path v" by (rule about_same_path)
    moreover from c have "cs \<noteq> []" by auto
    ultimately show False using u nv by simp
  qed
  have s: "saves cs = [] \<or> saves cs = [(cid, set_add (JStr (bvid v)) dl)]"
    using p by (simp add: pass_calls_def)
  have ne: "saves cs \<noteq> [] \<Longrightarrow> cs \<noteq> []" by auto
  have b: "length (saves cs) \<le> length [u \<leftarrow> v # rest. \<not> path_exists (transcript_path u) w0]"
    using s nv ne by auto
  have c: "\<forall>x\<in>set (saves cs). fst x = cid
            \<and> (\<forall>y\<in>set (snd x). y \<in> set dl
                  \<or> (\<exists>u\<in>set (v # rest). y = JStr (bvid u) \<and> \<not> path_exists (transcript_path u) w0))"
    using s nv ne by (auto dest: set_add_elem)
  have d: "sorted_wrt (\<lambda>a b. set a \<subseteq> set b) (dl # map snd (saves cs))"
    using s set_add_superset[of dl "JStr (bvid v)"] by auto
  show ?thesis using a b c d by (simp add: trace_ok_def)
qed

lemma trace_ok_append:
  assumes g: "grows w0 w"
      and e: "path_exists (transcript_path v) w \<longrightarrow> cs1 = []"
      and p: "pass_calls v cid dl cs1"
      and n: "if saves cs1 = [] then dl' = dl else dl' = set_add (JStr (bvid v)) dl"
      and r: "trace_ok w0 cid rest dl' cs2"
  shows "trace_ok w0 cid (v # rest) dl (cs1 @ cs2)"
proof -
  have h: "trace_ok w0 cid (v # rest) dl cs1" using g e p by (rule trace_ok_pass)
  have nv: "cs1 \<noteq> [] \<Longrightarrow> \<not> path_exists (transcript_path v) w0"
    using g e by (auto simp: grows_def)
  have s: "saves cs1 = [] \<or> saves cs1 = [(cid, set_add (JStr (bvid v)) dl)]"
    using p by (simp add: pass_calls_def)
  have ne: "saves cs1 \<noteq> [] \<Longrightarrow> cs1 \<noteq> []" by auto
  have sub: "set dl \<subseteq> set dl'"
    using n set_add_superset[of dl "JStr (bvid v)"] by (auto split: if_splits)
  have dl': "y \<in> set dl' \<Longrightarrow> y \<in> set dl
       \<or> (\<exists>u\<in>set (v # rest). y = JStr (bvid u) \<and> \<not> path_exists (transcript_path u) w0)" for y
    using n nv ne by (auto split: if_splits dest: set_add_elem)
  have a: "\<forall>u. path_exists (transcript_path u) w0 \<longrightarrow> (\<forall>c\<in>set (cs1 @ cs2). \<not> about u c)"
    using h r by (auto simp: trace_ok_def)
  have b: "length (saves (cs1 @ cs2)) \<le> length [u \<leftarrow> v # rest. \<not> path_exists (transcript_path u) w0]"
  proof -
    have "length (saves cs1) \<le> (if path_exists (transcript_path v) w0 then 0 else 1)"
      using s nv ne by auto
    moreover have "length (saves cs2) \<le> length [u \<leftarrow> rest. \<not> path_exists (transcript_path u) w0]"
      using r by (simp add: trace_ok_def)
    ultimately show ?thesis by (auto simp: saves_append split: if_splits)
  qed
  have c: "\<forall>x\<in>set (saves (cs1 @ cs2)). fst x = cid
            \<and> (\<forall>y\<in>set (snd x). y \<in> set dl
                  \<or> (\<exists>u\<in>set (v # rest). y = JStr (bvid u) \<and> \<not> path_exists (transcript_path u) w0))"
  proof
    fix x assume "x \<in> set (saves (cs1 @ cs2))"
    then consider "x \<in> set (saves cs1)" | "x \<in> set (saves cs2)" by (auto simp: saves_append)
    then show "fst x = cid
            \<and> (\<forall>y\<in>set (snd x). y \<in> set dl
                  \<or> (\<exists>u\<in>set (v # rest). y = JStr (bvid u) \<and> \<not> path_exists (transcript_path u) w0))"
    proof cases
      case 1 then show ?thesis using h by (simp add: trace_ok_def)
    next
      case 2
      with r have f: "fst x = cid" and
        y: "\<forall>y\<in>set (snd x). y \<in> set dl'
              \<or> (\<exists>u\<in>set rest. y = JStr (bvid u) \<and> \<not> path_exists (transcript_path u) w0)"
        by (simp_all add: trace_ok_def)
      show ?thesis using f y dl' by fastforce
    qed
  qed
  have d: "sorted_wrt (\<lambda>a b. set a \<subseteq> set b) (dl # map snd (saves (cs1 @ cs2)))"
  proof -
    have r': "sorted_wrt (\<lambda>a b. set a \<subseteq> set b) (dl' # map snd (saves cs2))"
      using r by (simp add: trace_ok_def)
    then have all: "\<forall>b\<in>set (map snd (saves cs2)). set dl' \<subseteq> set b" by simp
    show ?thesis
    proof (cases "saves cs1 = []")
      case True
      with n have "dl' = dl" by simp
      with r' True show ?thesis by (simp add: saves_append)
    next
      case False
      with s n have s1: "saves cs1 = [(cid, dl')]" by auto
      show ?thesis using r' all sub by (auto simp: saves_append s1 sorted_wrt_append)
    qed
  qed
  show ?thesis using a b c d by (simp add: trace_ok_def)
qed

lemma video_loop_facts:
  "grows w0 w \<Longrightarrow>
   \<exists>cs. calls (world_of (video_loop env cid i vs dl w)) = calls w @ cs \<and> trace_ok w0 cid vs dl cs"
proof (induction vs arbitrary: i dl w)
  case Nil
  show ?case
    by (rule exI[of _ "[]"]) (simp add: world_of_def trace_ok_def)
next
  case (Cons v rest)
  obtain cs1 where
    c1: "calls (world_of (loop_body env cid i v dl w)) = calls w @ cs1"
    and g1: "grows w (world_of (loop_body env cid i v dl w))"
    and e1: "path_exists (transcript_path v) w \<longrightarrow> cs1 = []"
    and p1: "pass_calls v cid dl cs1"
    and n1: "\<forall>dl' w'. loop_body env cid i v dl w = Inr (dl', w') \<longrightarrow>
            (if saves cs1 = [] then dl' = dl else dl' = set_add (JStr (bvid v)) dl)"
    using loop_body_facts[of env cid i v dl w] by blast
  show ?case
  proof (cases "loop_body env cid i v dl w")
    case (Inl x)
    then have "world_of (video_loop env cid i (v # rest) dl w) = world_of (loop_body env cid i v dl w)"
      by (simp add: world_of_def)
    moreover have "trace_ok w0 cid (v # rest) dl cs1"
      using Cons.prems e1 p1 by (rule trace_ok_pass)
    ultimately show ?thesis using c1 by auto
  next
    case (Inr r)
    obtain dl' w' where r: "r = (dl', w')" by (cases r)
    have w': "calls w' = calls w @ cs1" "grows w0 w'"
      using c1 g1 Inr r Cons.prems grows_trans by (auto simp: world_of_def)
    from Cons.IH[OF w'(2), of "i + 1" dl'] obtain cs2 where
      c2: "calls (world_of (video_loop env cid (i + 1) rest dl' w')) = calls w' @ cs2"
      and t2: "trace_ok w0 cid rest dl' cs2" by blast
    have n: "if saves cs1 = [] then dl' = dl else dl' = set_add (JStr (bvid v)) dl"
      using n1 Inr r by blast
    have "trace_ok w0 cid (v # rest) dl (cs1 @ cs2)"
      using Cons.prems e1 p1 n t2 by (rule trace_ok_append)
    moreover have "calls (world_of (video_loop env cid i (v # rest) dl w)) = calls w @ cs1 @ cs2"
      using Inr r c2 w' by simp
    ultimately show ?thesis by blast
  qed
qed

section \<open>The run of the pipeline\<close>

lemma same_store_extract: "same_store w (world_of (extract_video_info env w))"
proof (cases "first_check env")
  case None
  then show ?thesis by (simp add: extract_video_info_def same_store_def world_of_def)
next
  case (Some data)
  then show ?thesis by (simp add: extract_video_info_def same_store_process_collection)
qed

lemma same_store_grows: "same_store w w' \<Longrightarrow> grows w w'"
  by (simp add: same_store_def grows_def path_exists_def)

lemma read_progress_same_store:
  "same_store w w' \<Longrightarrow> read_progress p w' = read_progress p w"
  by (simp add: same_store_def read_progress_def open_read_def)

lemma load_progress_same_store:
  assumes "same_store w w1"
  shows "\<exists>w2. load_progress cid w1 =
            Inr (case returned (load_progress cid w) of None \<Rightarrow> [] | Some s \<Rightarrow> s, w2)
          \<and> same_store w w2"
proof -
  have f: "path_exists p w1 = path_exists p w" for p
    using assms by (simp add: same_store_def path_exists_def)
  have e: "same_store w (emit l w1)" for l
    using assms by (simp add: same_store_def emit_def)
  show ?thesis
    using assms e
    by (auto simp: load_progress_def Let_def f read_progress_same_store[OF assms] returned_def
        split: sum.splits dest: read_progress_is_Exception)
qed

lemma process_video_loop:
  assumes "extract_video_info env w = Inr (videos, w1)" and "videos \<noteq> []"
  shows "\<exists>w2. process_video env w
               = video_loop env (run_collection_id env) 0 videos (start_ledger env w) w2
             \<and> same_store w w2"
proof -
  let ?cid = "run_collection_id env"
  have s1: "same_store w w1"
    using same_store_extract[of w env] assms(1) by (simp add: world_of_def)
  have "\<exists>w2. (if ?cid \<noteq> [] then load_progress ?cid w1 else Inr ([], w1))
            = Inr (start_ledger env w, w2) \<and> same_store w w2"
  proof (cases "?cid = []")
    case True
    then show ?thesis using s1 by (simp add: start_ledger_def)
  next
    case False
    then show ?thesis
      using load_progress_same_store[OF s1, of ?cid] by (simp add: start_ledger_def)
  qed
  then obtain w2 where
    l: "(if ?cid \<noteq> [] then load_progress ?cid w1 else Inr ([], w1)) = Inr (start_ledger env w, w2)"
    and s2: "same_store w w2" by blast
  have "process_video env w = video_loop env ?cid 0 videos (start_ledger env w) w2"
    unfolding process_video_def Let_def run_collection_id_def[symmetric]
    using assms l by simp
  then show ?thesis using s2 by blast
qed

lemma process_video_trace:
  "\<exists>cs. calls (world_of (process_video env w)) = calls w @ cs
      \<and> trace_ok w (run_collection_id env) (selected env w) (start_ledger env w) cs"
proof (cases "extract_video_info env w")
  case (Inl x)
  obtain e w1 where x: "x = (e, w1)" by (cases x)
  have "calls w1 = calls w"
    using same_store_extract[of w env] Inl x by (simp add: same_store_def world_of_def)
  then show ?thesis
    using Inl x
    by (intro exI[of _ "[]"])
       (simp add: process_video_def world_of_def trace_ok_def selected_def returned_def)
next
  case (Inr r)
  obtain videos w1 where r: "r = (videos, w1)" by (cases r)
  have s1: "same_store w w1"
    using same_store_extract[of w env] Inr r by (simp add: world_of_def)
  have sel: "selected env w = videos"
    using Inr r by (simp add: selected_def returned_def)
  show ?thesis
  proof (cases "videos = []")
    case True
    then show ?thesis
      using Inr r s1 sel
      by (intro exI[of _ "[]"])
         (simp add: process_video_def world_of_def trace_ok_def same_store_def emit_def)
  next
    case False
    let ?cid = "run_collection_id env"
    obtain w2 where
      pv: "process_video env w = video_loop env ?cid 0 videos (start_ledger env w) w2"
      and s2: "same_store w w2"
      using process_video_loop[of env w videos w1] Inr r False by blast
    from video_loop_facts[OF same_store_grows[OF s2], of env ?cid 0 videos "start_ledger env w"]
    obtain cs where "calls (world_of (video_loop env ?cid 0 videos (start_ledger env w) w2)) = calls w2 @ cs"
      and "trace_ok w ?cid videos (start_ledger env w) cs" by blast
    then show ?thesis
      using s2 by (intro exI[of _ cs]) (simp add: pv sel same_store_def)
  qed
qed


text \<open>
  C10. In a run of \<open>process_video\<close>, no stage (download, audio extraction, splitting,
  transcription) is called for a video whose transcript exists before the run; there are
  no more calls of \<open>_save_progress\<close> than selected videos without a transcript, and a
  saved set holds, beyond the set the run started with, only bvids of such videos. The
  pass of the loop for a video whose transcript exists returns the progress set
  unchanged and only prints two lines.
\<close>

theorem existing_transcript_skipped:
  "(\<exists>cs. calls (world_of (process_video env w)) = calls w @ cs
      \<and> (\<forall>v. path_exists (transcript_path v) w \<longrightarrow> (\<forall>c\<in>set cs. \<not> about v c))
      \<and> length (saves cs) \<le> length [u \<leftarrow> selected env w. \<not> path_exists (transcript_path u) w]
      \<and> (\<forall>x\<in>set (saves cs). \<forall>y\<in>set (snd x). y \<in> set (start_ledger env w)
            \<or> (\<exists>u\<in>set (selected env w). y = JStr (bvid u)
                  \<and> \<not> path_exists (transcript_path u) w)))
   \<and> (path_exists (transcript_path v) w' \<longrightarrow>
        loop_body env cid i v dl w' =
          Inr (dl, emit (TranscriptExists (transcript_path v)) (emit (Processing (title v)) w')))"
proof -
  obtain cs where "calls (world_of (process_video env w)) = calls w @ cs"
      and "trace_ok w (run_collection_id env) (selected env w) (start_ledger env w) cs"
    using process_video_trace[of env w] by blast
  then have "\<exists>cs. calls (world_of (process_video env w)) = calls w @ cs
      \<and> (\<forall>v. path_exists (transcript_path v) w \<longrightarrow> (\<forall>c\<in>set cs. \<not> about v c))
      \<and> length (saves cs) \<le> length [u \<leftarrow> selected env w. \<not> path_exists (transcript_path u) w]
      \<and> (\<forall>x\<in>set (saves cs). \<forall>y\<in>set (snd x). y \<in> set (start_ledger env w)
            \<or> (\<exists>u\<in>set (selected env w). y = JStr (bvid u)
                  \<and> \<not> path_exists (transcript_path u) w))"
    by (intro exI[of _ cs]) (simp add: trace_ok_def)
  then show ?thesis using loop_body_skip by blast
qed



lemma studio_fields:
  "env_int studio = ascii_int" "first_check studio = Some course" "second_check studio = Some course"
  "fetch_outcome studio i = Fetched" "ffmpeg_outcome studio i = None"
  "audio_length studio i = Inr 60000" "whisper_outcome studio i = None"
  by (simp_all add: studio_def)

lemma str_nat_small: "str_nat 0 = ''0''" "str_nat (Suc 0) = ''1''"
  by code_simp+

lemma second_visit_fields:
  "unopenable second_visit = {}" "calls second_visit = []" "stdin second_visit = [''3'', ''1,4'']"
  "files second_visit = [''bilibili_video/progress_BV1c.json'' \<mapsto> Json (JArr [JStr ''BV2b'']),
                         ''bilibili_video/One/outputs/BV1a.txt'' \<mapsto> Other]"
  by (simp_all add: second_visit_def no_files_def)

lemma two_chunks: "[0..<2] = [0, Suc 0]"
  by (simp add: numeral_2_eq_2)

lemma course_id: "get_or (page_bvid course) [] = ''BV1c''"
  by code_simp

lemma course_path: "progress_path ''BV1c'' = ''bilibili_video/progress_BV1c.json''"
  by code_simp

lemma loop_eval:
  assumes f: "files w1 = files second_visit" and u: "unopenable w1 = {}" and c: "calls w1 = []"
  shows "calls (world_of (video_loop studio ''BV1c'' 0
            [\<lparr>title = ''One'', bvid = ''BV1a'', aid = Some 101\<rparr>,
             \<lparr>title = ''Three'', bvid = ''BV3c'', aid = Some 103\<rparr>,
             \<lparr>title = ''Four'', bvid = ''BV4d'', aid = Some 104\<rparr>]
            [JStr ''BV2b''] w1))
         = studio_trace"
  by (simp add: loop_body_def download_video_def extract_audio_def split_audio_def
        transcribe_audio_def save_progress_def open_write_def json_dump_def record_call_def
        emit_def path_exists_def Let_def studio_fields str_nat_small second_visit_fields
        f u c world_of_def set_add_def py_in_def course_path two_chunks studio_trace_def)


lemma studio_selected:
  "returned (extract_video_info studio second_visit)
     = Some [\<lparr>title = ''One'', bvid = ''BV1a'', aid = Some 101\<rparr>,
             \<lparr>title = ''Three'', bvid = ''BV3c'', aid = Some 103\<rparr>,
             \<lparr>title = ''Four'', bvid = ''BV4d'', aid = Some 104\<rparr>]"
proof -
  have "returned (process_collection ascii_int course second_visit)
     = Some [\<lparr>title = ''One'', bvid = ''BV1a'', aid = Some 101\<rparr>,
             \<lparr>title = ''Three'', bvid = ''BV3c'', aid = Some 103\<rparr>,
             \<lparr>title = ''Four'', bvid = ''BV4d'', aid = Some 104\<rparr>]"
    by code_simp
  then show ?thesis by (simp add: extract_video_info_def studio_fields)
qed

lemma studio_start_ledger: "start_ledger studio second_visit = [JStr ''BV2b'']"
proof -
  have "returned (load_progress ''BV1c'' second_visit) = Some [JStr ''BV2b'']" by code_simp
  then show ?thesis
    by (simp add: start_ledger_def run_collection_id_def studio_fields course_id)
qed

lemma studio_run: "calls (world_of (process_video studio second_visit)) = studio_trace"
proof -
  let ?vs = "[\<lparr>title = ''One'', bvid = ''BV1a'', aid = Some 101\<rparr>,
             \<lparr>title = ''Three'', bvid = ''BV3c'', aid = Some 103\<rparr>,
             \<lparr>title = ''Four'', bvid = ''BV4d'', aid = Some 104\<rparr>]"
  obtain w1 where e: "extract_video_info studio second_visit = Inr (?vs, w1)"
    using studio_selected by (auto simp: returned_def split: sum.splits)
  have ne: "?vs \<noteq> []" by simp
  obtain w2 where
    pv: "process_video studio second_visit
           = video_loop studio (run_collection_id studio) 0 ?vs (start_ledger studio second_visit) w2"
    and s: "same_store second_visit w2"
    using process_video_loop[OF e ne] by blast
  have c: "run_collection_id studio = ''BV1c''"
    by (simp add: run_collection_id_def studio_fields course_id)
  have f: "files w2 = files second_visit" "unopenable w2 = {}" "calls w2 = []"
    using s by (simp_all add: same_store_def second_visit_fields)
  show ?thesis
    unfolding pv c studio_start_ledger by (rule loop_eval[OF f])
qed


text \<open>In that run no call is for the first video, whose transcript exists.\<close>

theorem existing_transcript_skipped_witness:
  "selected studio second_visit
     = [\<lparr>title = ''One'', bvid = ''BV1a'', aid = Some 101\<rparr>,
        \<lparr>title = ''Three'', bvid = ''BV3c'', aid = Some 103\<rparr>,
        \<lparr>title = ''Four'', bvid = ''BV4d'', aid = Some 104\<rparr>]
   \<and> path_exists (transcript_path \<lparr>title = ''One'', bvid = ''BV1a'', aid = Some 101\<rparr>) second_visit
   \<and> \<not> list_ex (about \<lparr>title = ''One'', bvid = ''BV1a'', aid = Some 101\<rparr>)
          (calls (world_of (process_video studio second_visit)))
   \<and> length (saves (calls (world_of (process_video studio second_visit)))) \<le> 2
   \<and> calls (world_of (process_video studio second_visit)) = studio_trace"
proof -
  let ?one = "\<lparr>title = ''One'', bvid = ''BV1a'', aid = Some 101\<rparr>"
  have sel: "selected studio second_visit
     = [?one, \<lparr>title = ''Three'', bvid = ''BV3c'', aid = Some 103\<rparr>,
        \<lparr>title = ''Four'', bvid = ''BV4d'', aid = Some 104\<rparr>]"
    by (simp add: selected_def studio_selected)
  have p: "path_exists (transcript_path ?one) second_visit" by code_simp
  have n: "length [u \<leftarrow> [?one, \<lparr>title = ''Three'', bvid = ''BV3c'', aid = Some 103\<rparr>,
        \<lparr>title = ''Four'', bvid = ''BV4d'', aid = Some 104\<rparr>].
                \<not> path_exists (transcript_path u) second_visit] = 2" by code_simp
  obtain cs where
    a: "calls (world_of (process_video studio second_visit)) = calls second_visit @ cs"
    and b: "\<forall>v. path_exists (transcript_path v) second_visit \<longrightarrow> (\<forall>c\<in>set cs. \<not> about v c)"
    and c: "length (saves cs)
              \<le> length [u \<leftarrow> selected studio second_visit.
                          \<not> path_exists (transcript_path u) second_visit]"
    using existing_transcript_skipped[of studio second_visit] by blast
  from a have cs: "cs = calls (world_of (process_video studio second_visit))"
    by (simp add: second_visit_fields)
  from b p have "\<forall>c\<in>set cs. \<not> about ?one c" by blast
  then have "\<not> list_ex (about ?one) (calls (world_of (process_video studio second_visit)))"
    unfolding cs by (simp add: list_ex_iff)
  moreover have "length (saves (calls (world_of (process_video studio second_visit)))) \<le> 2"
    using c[unfolded cs sel n] .
  ultimately show ?thesis using sel p studio_run by blast
qed

end
